theory Spec2Isabelle
  imports Main "HOL-Library.Sublist" "HOL-Library.Monad_Syntax"
begin

section \<open>JavaScript values\<close>

text \<open>
  The stream elements are decoded JSON, read by the translator with JavaScript's own
  tests (truthiness, \<^verbatim>\<open>typeof\<close>, \<^verbatim>\<open>in\<close>). A value is therefore a
  \<open>jsvalue\<close>; \<open>JUndefined\<close> is what reading an absent property gives. An object is
  the list of its properties in insertion order, each name once. Numbers are
  modelled as integers: the only arithmetic of the source is on Unix timestamps and
  token counts.
\<close>

datatype jsvalue =
    JUndefined
  | JNull
  | JBool bool
  | JNum int
  | JStr string
  | JArr "jsvalue list"
  | JObj "(string \<times> jsvalue) list"

text \<open>\<^verbatim>\<open>if (v)\<close>: the falsy values are undefined, null, false, 0 and the empty string.\<close>

fun truthy :: "jsvalue \<Rightarrow> bool" where
  "truthy JUndefined = False"
| "truthy JNull = False"
| "truthy (JBool b) = b"
| "truthy (JNum n) = (n \<noteq> 0)"
| "truthy (JStr s) = (s \<noteq> [])"
| "truthy (JArr xs) = True"
| "truthy (JObj kvs) = True"

text \<open>\<^verbatim>\<open>typeof v === "object"\<close> holds for null, arrays and objects.\<close>

fun is_object :: "jsvalue \<Rightarrow> bool" where
  "is_object JNull = True"
| "is_object (JArr xs) = True"
| "is_object (JObj kvs) = True"
| "is_object v = False"

text \<open>\<open>field k kvs\<close> is \<^verbatim>\<open>o.k\<close> for the object with properties \<open>kvs\<close>.\<close>

definition field :: "string \<Rightarrow> (string \<times> jsvalue) list \<Rightarrow> jsvalue" where
  "field k kvs = (case map_of kvs k of Some v \<Rightarrow> v | None \<Rightarrow> JUndefined)"

definition has_field :: "string \<Rightarrow> (string \<times> jsvalue) list \<Rightarrow> bool" where
  "has_field k kvs = (map_of kvs k \<noteq> None)"

text \<open>
  \<open>get_prop k v\<close> is \<^verbatim>\<open>v.k\<close> and \<open>has_key k v\<close> is \<^verbatim>\<open>"k" in v\<close>, for the
  property names the source uses (none of them is an array index or \<^verbatim>\<open>length\<close>).
  The source reads a property only behind a truthiness guard or \<^verbatim>\<open>?.\<close>, and uses
  \<^verbatim>\<open>in\<close> only behind \<^verbatim>\<open>typeof v === "object"\<close>.
\<close>

fun get_prop :: "string \<Rightarrow> jsvalue \<Rightarrow> jsvalue" where
  "get_prop k (JObj kvs) = field k kvs"
| "get_prop k v = JUndefined"

fun has_key :: "string \<Rightarrow> jsvalue \<Rightarrow> bool" where
  "has_key k (JObj kvs) = has_field k kvs"
| "has_key k v = False"

text \<open>
  \<^verbatim>\<open>{ k1: v1, ..., ...data }\<close>: the properties written first keep their place and
  take the value \<open>data\<close> has for the same name; the other properties of \<open>data\<close>
  follow in their order.
\<close>

definition obj_spread :: "('k \<times> 'v) list \<Rightarrow> ('k \<times> 'v) list \<Rightarrow> ('k \<times> 'v) list" where
  "obj_spread own data =
     map (\<lambda>kv. (fst kv, case map_of data (fst kv) of Some w \<Rightarrow> w | None \<Rightarrow> snd kv)) own
     @ filter (\<lambda>kv. map_of own (fst kv) = None) data"

text \<open>\<^verbatim>\<open>typeof v === "string"\<close> and \<^verbatim>\<open>typeof v === "number"\<close>.\<close>

fun is_string :: "jsvalue \<Rightarrow> bool" where
  "is_string (JStr s) = True"
| "is_string v = False"

fun is_number :: "jsvalue \<Rightarrow> bool" where
  "is_number (JNum n) = True"
| "is_number v = False"

text \<open>
  The reads of a property that the base schema of the events types
  \<^verbatim>\<open>string | undefined\<close> or \<^verbatim>\<open>number | undefined\<close>. The result is \<open>None\<close> when
  the value has another type, which no validated event has.
\<close>

fun opt_string :: "jsvalue \<Rightarrow> string option option" where
  "opt_string JUndefined = Some None"
| "opt_string (JStr s) = Some (Some s)"
| "opt_string v = None"

fun opt_number :: "jsvalue \<Rightarrow> int option option" where
  "opt_number JUndefined = Some None"
| "opt_number (JNum n) = Some (Some n)"
| "opt_number v = None"

text \<open>Truthiness of a \<^verbatim>\<open>string | undefined\<close> and of a \<^verbatim>\<open>number | undefined\<close>.\<close>

fun str_truthy :: "string option \<Rightarrow> bool" where
  "str_truthy None = False"
| "str_truthy (Some s) = (s \<noteq> [])"

fun num_truthy :: "int option \<Rightarrow> bool" where
  "num_truthy None = False"
| "num_truthy (Some n) = (n \<noteq> 0)"

text \<open>\<^verbatim>\<open>Map.set\<close>: a key already in the map keeps its place, a new key goes last.\<close>

fun map_set :: "'k \<Rightarrow> 'v \<Rightarrow> ('k \<times> 'v) list \<Rightarrow> ('k \<times> 'v) list" where
  "map_set k v [] = [(k, v)]"
| "map_set k v ((k', v') # kvs) =
     (if k = k' then (k, v) # kvs else (k', v') # map_set k v kvs)"

text \<open>
  A \<^verbatim>\<open>Map\<close> whose keys are decoded values. It compares primitive keys by value and
  arrays and objects by identity. Every element of the stream is decoded afresh, so
  an array or object read from one event is never a key stored from another:
  \<^verbatim>\<open>get\<close> does not find it and \<^verbatim>\<open>set\<close> adds an entry.
\<close>

fun is_reference :: "jsvalue \<Rightarrow> bool" where
  "is_reference (JArr xs) = True"
| "is_reference (JObj kvs) = True"
| "is_reference v = False"

definition Map_get :: "jsvalue \<Rightarrow> (jsvalue \<times> 'v) list \<Rightarrow> 'v option" where
  "Map_get k m = (if is_reference k then None else map_of m k)"

definition Map_set :: "jsvalue \<Rightarrow> 'v \<Rightarrow> (jsvalue \<times> 'v) list \<Rightarrow> (jsvalue \<times> 'v) list" where
  "Map_set k v m = (if is_reference k then m @ [(k, v)] else map_set k v m)"

section \<open>Strings\<close>

text \<open>
  A string is the list of its code units. The string functions below do not depend
  on the size of a code unit, and the two markers of the splitter are ASCII.
\<close>

fun find_index :: "string \<Rightarrow> string \<Rightarrow> nat option" where
  "find_index [] sub = (if sub = [] then Some 0 else None)"
| "find_index (c # cs) sub =
     (if prefix sub (c # cs) then Some 0 else map_option Suc (find_index cs sub))"

text \<open>\<^verbatim>\<open>s.indexOf(sub)\<close>: the first position of \<open>sub\<close> in \<open>s\<close>, or -1.\<close>

definition indexOf :: "string \<Rightarrow> string \<Rightarrow> int" where
  "indexOf s sub = (case find_index s sub of None \<Rightarrow> - 1 | Some i \<Rightarrow> int i)"

definition str_includes :: "string \<Rightarrow> string \<Rightarrow> bool" where
  "str_includes s sub = (find_index s sub \<noteq> None)"

text \<open>\<^verbatim>\<open>s.substring(start)\<close>: a negative start counts as 0, one past the end as the end.\<close>

definition substring :: "string \<Rightarrow> int \<Rightarrow> string" where
  "substring s start = drop (nat start) s"

lemma find_index_bound:
  "find_index s sub = Some i \<Longrightarrow> i + length sub \<le> length s"
  by (induction s arbitrary: i) (auto split: if_splits dest: prefix_length_le)

lemma find_index_shrinks:
  assumes "sep \<noteq> []" and "find_index s sep = Some i"
  shows "length s - (i + length sep) < length s"
proof -
  have "i + length sep \<le> length s"
    using assms(2) by (rule find_index_bound)
  moreover have "0 < length sep"
    using assms(1) by simp
  ultimately show ?thesis
    by arith
qed

text \<open>\<^verbatim>\<open>s.split(sep)\<close>; with the empty separator, the characters of \<open>s\<close>.\<close>

function split :: "string \<Rightarrow> string \<Rightarrow> string list" where
  "split s sep =
     (if sep = [] then map (\<lambda>c. [c]) s
      else (case find_index s sep of
              None \<Rightarrow> [s]
            | Some i \<Rightarrow> take i s # split (drop (i + length sep) s) sep))"
  by pat_completeness auto
termination
  by (relation "measure (\<lambda>(s, sep). length s)") (simp_all add: find_index_shrinks)

declare split.simps [simp del]

text \<open>\<^verbatim>\<open>xs[i]\<close>: undefined out of range.\<close>

definition at_index :: "'a list \<Rightarrow> nat \<Rightarrow> 'a option" where
  "at_index xs i = (if i < length xs then Some (xs ! i) else None)"

text \<open>\<^verbatim>\<open>x || ''\<close> on a string or undefined.\<close>

fun or_empty :: "string option \<Rightarrow> string" where
  "or_empty None = []"
| "or_empty (Some s) = s"

text \<open>\<^verbatim>\<open>xs.join(sep)\<close> on strings.\<close>

fun join :: "string \<Rightarrow> string list \<Rightarrow> string" where
  "join sep [] = []"
| "join sep [x] = x"
| "join sep (x # y # ys) = x @ sep @ join sep (y # ys)"

section \<open>Coercions\<close>

text \<open>
  A type assertion of the source (\<^verbatim>\<open>as string\<close>, \<^verbatim>\<open>as number\<close>) checks nothing:
  the value goes on as it is, and JavaScript coerces it where it is used as a string
  or in arithmetic. Both coercions first take the primitive value of an array or an
  object. That throws a \<^verbatim>\<open>TypeError\<close> on an object with a \<^verbatim>\<open>toString\<close>
  property of its own (a decoded property is never a function, and \<^verbatim>\<open>valueOf\<close>
  returns the object itself), and on an array that holds such an object, since the
  primitive value of an array is the \<^verbatim>\<open>join\<close> of its elements.

  \<open>to_string v\<close> is the string of the template literal \<^verbatim>\<open>`${v}`\<close>, and \<open>None\<close>
  when the coercion throws. A number, an integer here, is written in decimal.
\<close>

definition digit :: "nat \<Rightarrow> char" where
  "digit n = ''0123456789'' ! n"

function show_nat :: "nat \<Rightarrow> string" where
  "show_nat n =
     (if n < 10 then [digit n] else show_nat (n div 10) @ [digit (n mod 10)])"
  by pat_completeness auto
termination
  by (relation "measure (\<lambda>n. n)") simp_all

declare show_nat.simps [simp del]

definition show_int :: "int \<Rightarrow> string" where
  "show_int i = (if i < 0 then ''-'' @ show_nat (nat (- i)) else show_nat (nat i))"

fun to_string :: "jsvalue \<Rightarrow> string option" where
  "to_string JUndefined = Some ''undefined''"
| "to_string JNull = Some ''null''"
| "to_string (JBool b) = Some (if b then ''true'' else ''false'')"
| "to_string (JNum n) = Some (show_int n)"
| "to_string (JStr s) = Some s"
| "to_string (JArr xs) =
     map_option (join '','')
       (those (map (\<lambda>x. if x = JNull \<or> x = JUndefined then Some [] else to_string x) xs))"
| "to_string (JObj kvs) =
     (if has_field ''toString'' kvs then None else Some ''[object Object]'')"

text \<open>The coercion of \<open>v\<close> to a string or to a number throws.\<close>

definition coercion_throws :: "jsvalue \<Rightarrow> bool" where
  "coercion_throws v = (to_string v = None)"

text \<open>
  The number \<^verbatim>\<open>a - b\<close>. On two numbers it is their difference. On other operands
  it is the difference of the numbers they are coerced to, which this model does not
  compute: \<open>Difference a b\<close> stands for it. \<open>None\<close>: a coercion throws.
\<close>

datatype js_number = Number int | Difference jsvalue jsvalue

definition js_minus :: "jsvalue \<Rightarrow> jsvalue \<Rightarrow> js_number option" where
  "js_minus a b =
     (case (a, b) of
        (JNum x, JNum y) \<Rightarrow> Some (Number (x - y))
      | _ \<Rightarrow> if coercion_throws a \<or> coercion_throws b then None else Some (Difference a b))"

text \<open>
  A \<^verbatim>\<open>Date\<close>: \<open>Date ms\<close> is the date \<open>ms\<close> milliseconds after the epoch, and
  \<open>DateOfSeconds v\<close> stands for \<^verbatim>\<open>new Date(v * 1000)\<close> on a value \<open>v\<close> that is not a
  number, where the product is that of the number \<open>v\<close> is coerced to.
\<close>

datatype js_date = Date int | DateOfSeconds jsvalue

text \<open>\<^verbatim>\<open>new Date(seconds * 1000)\<close> on a number.\<close>

definition date_of_seconds :: "int \<Rightarrow> js_date" where
  "date_of_seconds n = Date (n * 1000)"

text \<open>
  \<^verbatim>\<open>new Date((v as number) * 1000)\<close> on a value asserted to be a number. \<open>None\<close>:
  the coercion throws.
\<close>

definition new_Date :: "jsvalue \<Rightarrow> js_date option" where
  "new_Date v =
     (case v of
        JNum n \<Rightarrow> Some (date_of_seconds n)
      | _ \<Rightarrow> if coercion_throws v then None else Some (DateOfSeconds v))"

section \<open>Stream parts and stream state\<close>

text \<open>
  An entry of the node ledger. The node id and the node type are asserted to be
  strings by the source, not checked; the two timestamps come from the
  \<^verbatim>\<open>created_at\<close> of validated events and are numbers.
\<close>

record node_info =
  nodeId :: jsvalue
  nodeType :: jsvalue
  startedAt :: "int option"
  finishedAt :: "int option"

text \<open>A node of the report: \<^verbatim>\<open>{ ...node, duration }\<close>.\<close>

record node_report = node_info +
  duration :: "int option"

record execution_report =
  report_workflowId :: jsvalue
  report_workflowRunId :: jsvalue
  report_startedAt :: jsvalue
  report_finishedAt :: jsvalue
  report_duration :: "js_number option"
  report_nodes :: "node_report list"

text \<open>
  \<^verbatim>\<open>StreamState\<close>. The \<open>nodes\<close> map keeps insertion order. The four workflow
  fields are filled with asserted, unchecked values, so they hold decoded values,
  \<open>JUndefined\<close> while not set.
\<close>

record stream_state =
  conversationId :: "string option"
  messageId :: "string option"
  taskId :: "string option"
  isInThinking :: bool
  reasoningId :: string
  workflowId :: jsvalue
  workflowRunId :: jsvalue
  workflowStartedAt :: jsvalue
  workflowFinishedAt :: jsvalue
  nodes :: "(jsvalue \<times> node_info) list"
  isActiveText :: bool
  isActiveReasoning :: bool

definition initial_state :: stream_state where
  "initial_state =
     \<lparr>conversationId = None, messageId = None, taskId = None,
      isInThinking = False, reasoningId = [],
      workflowId = JUndefined, workflowRunId = JUndefined,
      workflowStartedAt = JUndefined, workflowFinishedAt = JUndefined,
      nodes = [], isActiveText = False, isActiveReasoning = False\<rparr>"

record usage =
  inputTokens :: jsvalue
  outputTokens :: jsvalue
  totalTokens :: jsvalue

text \<open>
  \<^verbatim>\<open>providerMetadata.difyWorkflowData\<close> of a finish part; an absent
  \<^verbatim>\<open>workflowExecution\<close> is \<open>None\<close>.
\<close>

record dify_workflow_data =
  md_conversationId :: "string option"
  md_messageId :: "string option"
  md_taskId :: "string option"
  md_workflowExecution :: "execution_report option"

datatype finish_reason = Stop

text \<open>
  Why an element of the event stream failed: its text is not JSON, the decoder
  refused the value for a forbidden prototype property (a JSON parse error as well),
  or the value did not validate.
\<close>

datatype parse_error =
    JSONParseError string
  | ForbiddenProperty jsvalue
  | TypeValidationError jsvalue

text \<open>
  \<^verbatim>\<open>LanguageModelV2StreamPart\<close>, the parts this provider emits. The id of a
  response-metadata part is a string by its type, but the workflow cases fill it
  with a value only asserted to be one, so it is a decoded value, \<open>JUndefined\<close> when
  absent.
\<close>

datatype stream_part =
    ReasoningStart string
  | ReasoningDelta string string
  | ReasoningEnd string
  | TextStart string
  | TextDelta string string
  | TextEnd string
  | ResponseMetadata jsvalue "js_date option"
  | Finish finish_reason usage dify_workflow_data
  | ErrorPart parse_error
  | Raw jsvalue

text \<open>
  \<^verbatim>\<open>ParseResult<DifyStreamEvent>\<close>: a failed element, or the validated value. Every
  schema of the event union is an object schema, so the value is an object, kept as
  the list of its properties.
\<close>

datatype chunk = Failure parse_error | Success "(string \<times> jsvalue) list"

section \<open>The reasoning/answer splitter\<close>

text \<open>
  \<^verbatim>\<open>parseContentWithThinking\<close>. The controller is the list of the parts enqueued by
  the call, in order. \<open>newId\<close> is what \<^verbatim>\<open>generateId()\<close> returns when this call
  reaches it.
\<close>

definition parseContentWithThinking ::
  "string \<Rightarrow> string \<Rightarrow> stream_state \<Rightarrow> stream_state \<times> stream_part list" where
  "parseContentWithThinking newId newContent state =
     (if str_includes newContent ''<think>\<newline>'' \<and> \<not> isInThinking state then
        let state1 = state\<lparr>isInThinking := True, reasoningId := newId,
                            isActiveReasoning := True\<rparr>;
            thinkStartIndex = indexOf newContent ''<think>\<newline>'';
            contentAfterThink =
              substring newContent (thinkStartIndex + int (length ''<think>\<newline>''))
        in (state1,
            [ReasoningStart (reasoningId state1)]
            @ (if contentAfterThink \<noteq> []
               then [ReasoningDelta (reasoningId state1) contentAfterThink] else []))
      else if isInThinking state then
        (if str_includes newContent ''\<newline></think>'' then
           let parts = split newContent ''\<newline></think>'';
               reasoningPart = at_index parts 0;
               textPart = or_empty (at_index parts 1);
               state1 = state\<lparr>isInThinking := False, isActiveReasoning := False\<rparr>
           in if textPart \<noteq> [] then
                (state1\<lparr>isActiveText := True\<rparr>,
                 (if str_truthy reasoningPart
                  then [ReasoningDelta (reasoningId state) (or_empty reasoningPart)] else [])
                 @ [ReasoningEnd (reasoningId state)]
                 @ [TextStart ''answer'', TextDelta ''answer'' textPart])
              else
                (state1,
                 (if str_truthy reasoningPart
                  then [ReasoningDelta (reasoningId state) (or_empty reasoningPart)] else [])
                 @ [ReasoningEnd (reasoningId state)])
         else (state, [ReasoningDelta (reasoningId state) newContent]))
      else
        (state\<lparr>isActiveText := True\<rparr>,
         (if \<not> isActiveText state then [TextStart ''answer''] else [])
         @ [TextDelta ''answer'' newContent]))"

text \<open>The splitter over a sequence of fragments; \<open>gen n\<close> is the id offered to call \<open>n\<close>.\<close>

fun parse_fragments ::
  "(nat \<Rightarrow> string) \<Rightarrow> nat \<Rightarrow> stream_state \<Rightarrow> string list \<Rightarrow> stream_state \<times> stream_part list" where
  "parse_fragments gen n state [] = (state, [])"
| "parse_fragments gen n state (f # fs) =
     (let (state1, ps) = parseContentWithThinking (gen n) f state;
          (state2, qs) = parse_fragments gen (Suc n) state1 fs
      in (state2, ps @ qs))"

section \<open>The event-to-part translator\<close>

text \<open>
  The execution report, as the \<^verbatim>\<open>workflow_finished\<close> case computes it: \<open>Some None\<close>
  is \<^verbatim>\<open>undefined\<close>, and \<open>None\<close> a \<^verbatim>\<open>TypeError\<close> thrown by the subtraction.
\<close>

definition executionReport_workflow_finished ::
  "stream_state \<Rightarrow> execution_report option option" where
  "executionReport_workflow_finished state =
     (if truthy (workflowId state) then do {
        workflowDuration \<leftarrow>
          (if truthy (workflowStartedAt state) \<and> truthy (workflowFinishedAt state)
           then map_option Some (js_minus (workflowFinishedAt state) (workflowStartedAt state))
           else Some None);
        Some (Some
          \<lparr>report_workflowId = workflowId state,
           report_workflowRunId = workflowRunId state,
           report_startedAt = workflowStartedAt state,
           report_finishedAt = workflowFinishedAt state,
           report_duration = workflowDuration,
           report_nodes =
             map (\<lambda>node.
                    \<lparr>nodeId = nodeId node, nodeType = nodeType node,
                     startedAt = startedAt node, finishedAt = finishedAt node,
                     duration =
                       (case (startedAt node, finishedAt node) of
                          (Some s, Some f) \<Rightarrow> if s \<noteq> 0 \<and> f \<noteq> 0 then Some (f - s) else None
                        | _ \<Rightarrow> None)\<rparr>)
                 (map snd (nodes state))\<rparr>)
      } else Some None)"

text \<open>
  The execution report, as the \<^verbatim>\<open>message_end\<close> case computes it.
\<close>

definition executionReport_message_end ::
  "stream_state \<Rightarrow> execution_report option option" where
  "executionReport_message_end state =
     (if truthy (workflowId state) then do {
        workflowDuration \<leftarrow>
          (if truthy (workflowStartedAt state) \<and> truthy (workflowFinishedAt state)
           then map_option Some (js_minus (workflowFinishedAt state) (workflowStartedAt state))
           else Some None);
        Some (Some
          \<lparr>report_workflowId = workflowId state,
           report_workflowRunId = workflowRunId state,
           report_startedAt = workflowStartedAt state,
           report_finishedAt = workflowFinishedAt state,
           report_duration = workflowDuration,
           report_nodes =
             map (\<lambda>node.
                    \<lparr>nodeId = nodeId node, nodeType = nodeType node,
                     startedAt = startedAt node, finishedAt = finishedAt node,
                     duration =
                       (case (startedAt node, finishedAt node) of
                          (Some s, Some f) \<Rightarrow> if s \<noteq> 0 \<and> f \<noteq> 0 then Some (f - s) else None
                        | _ \<Rightarrow> None)\<rparr>)
                 (map snd (nodes state))\<rparr>)
      } else Some None)"

text \<open>\<^verbatim>\<open>data.data && typeof data.data === "object"\<close>.\<close>

definition data_is_object :: "(string \<times> jsvalue) list \<Rightarrow> bool" where
  "data_is_object data = (truthy (field ''data'' data) \<and> is_object (field ''data'' data))"

text \<open>
  The cases of the \<^verbatim>\<open>switch (data.event)\<close> of \<^verbatim>\<open>transform\<close>. Each takes the
  event \<open>data\<close> and the state after the identifiers were stored, and returns the new
  state with the parts it enqueues; \<open>None\<close> when a coercion throws, which ends the
  stream with that error. \<open>created_at\<close> is \<^verbatim>\<open>data.created_at\<close>.
\<close>

definition case_workflow_started ::
  "(string \<times> jsvalue) list \<Rightarrow> stream_state \<Rightarrow> (stream_state \<times> stream_part list) option" where
  "case_workflow_started data state = do {
     let d = field ''data'' data;
     let state1 =
       (if data_is_object data \<and> has_key ''workflow_id'' d \<and> has_key ''created_at'' d
        then state\<lparr>workflowId := get_prop ''workflow_id'' d,
                   workflowRunId := field ''workflow_run_id'' data,
                   workflowStartedAt := get_prop ''created_at'' d\<rparr>
        else state);
     metadata \<leftarrow>
       (if data_is_object data \<and> has_key ''created_at'' d then do {
          timestamp \<leftarrow> new_Date (get_prop ''created_at'' d);
          Some [ResponseMetadata (field ''workflow_run_id'' data) (Some timestamp)]
        } else Some []);
     Some (state1,
           metadata @ [Raw (JObj (obj_spread [(''difyEvent'', JStr ''workflow_started'')] data))])
   }"

definition case_workflow_finished ::
  "(string \<times> jsvalue) list \<Rightarrow> stream_state \<Rightarrow> (stream_state \<times> stream_part list) option" where
  "case_workflow_finished data state = do {
     let d = field ''data'' data;
     (state1, metadata) \<leftarrow>
       (if data_is_object data \<and> has_key ''finished_at'' d then do {
          timestamp \<leftarrow> new_Date (get_prop ''finished_at'' d);
          Some (state\<lparr>workflowFinishedAt := get_prop ''finished_at'' d\<rparr>,
                [ResponseMetadata (field ''workflow_run_id'' data) (Some timestamp)])
        } else Some (state, []));
     let raw = Raw (JObj (obj_spread
                 [(''difyEvent'', JStr ''workflow_finished''),
                  (''duration'',
                   if data_is_object data \<and> has_key ''elapsed_time'' d
                   then get_prop ''elapsed_time'' d else JUndefined)] data));
     executionReport \<leftarrow> executionReport_workflow_finished state1;
     let totalTokens =
           (if data_is_object data \<and> has_key ''total_tokens'' d
               \<and> is_number (get_prop ''total_tokens'' d)
            then get_prop ''total_tokens'' d else JNum 0);
     Some (state1,
           metadata @
           [raw,
            Finish Stop
              \<lparr>inputTokens = JNum 0, outputTokens = totalTokens, totalTokens = totalTokens\<rparr>
              \<lparr>md_conversationId = conversationId state1, md_messageId = messageId state1,
               md_taskId = taskId state1, md_workflowExecution = executionReport\<rparr>])
   }"

definition case_node_started ::
  "int option \<Rightarrow> (string \<times> jsvalue) list \<Rightarrow> stream_state
     \<Rightarrow> (stream_state \<times> stream_part list) option" where
  "case_node_started created_at data state = do {
     let d = field ''data'' data;
     (state1, metadata) \<leftarrow>
       (if data_is_object data \<and> has_key ''node_id'' d \<and> has_key ''node_type'' d
           \<and> num_truthy created_at then do {
          let nodeInfo = \<lparr>nodeId = get_prop ''node_id'' d, nodeType = get_prop ''node_type'' d,
                           startedAt = created_at, finishedAt = None\<rparr>;
          id \<leftarrow> to_string (get_prop ''node_id'' d);
          Some (state\<lparr>nodes := Map_set (get_prop ''node_id'' d) nodeInfo (nodes state)\<rparr>,
                [ResponseMetadata (JStr (''node-'' @ id))
                   (map_option date_of_seconds created_at)])
        } else Some (state, []));
     Some (state1,
           metadata @ [Raw (JObj (obj_spread [(''difyEvent'', JStr ''node_started'')] data))])
   }"

definition case_node_finished ::
  "int option \<Rightarrow> (string \<times> jsvalue) list \<Rightarrow> stream_state
     \<Rightarrow> (stream_state \<times> stream_part list) option" where
  "case_node_finished created_at data state = do {
     let d = field ''data'' data;
     (state1, existingNode, metadata) \<leftarrow>
       (if data_is_object data \<and> has_key ''node_id'' d \<and> num_truthy created_at then do {
          id \<leftarrow> to_string (get_prop ''node_id'' d);
          Some (case Map_get (get_prop ''node_id'' d) (nodes state) of
                  Some node \<Rightarrow>
                    (state\<lparr>nodes := Map_set (get_prop ''node_id'' d)
                                       (node\<lparr>finishedAt := created_at\<rparr>) (nodes state)\<rparr>,
                     Some (node\<lparr>finishedAt := created_at\<rparr>),
                     [ResponseMetadata (JStr (''node-'' @ id))
                        (map_option date_of_seconds created_at)])
                | None \<Rightarrow>
                    (state, None,
                     [ResponseMetadata (JStr (''node-'' @ id))
                        (map_option date_of_seconds created_at)]))
        } else Some (state, None, []));
     let duration =
           (case (existingNode, created_at) of
              (Some node, Some c) \<Rightarrow>
                (case startedAt node of
                   Some s \<Rightarrow> if s \<noteq> 0 \<and> c \<noteq> 0 then JNum (c - s) else JUndefined
                 | None \<Rightarrow> JUndefined)
            | _ \<Rightarrow> JUndefined);
     Some (state1,
           metadata @
           [Raw (JObj (obj_spread
                   [(''difyEvent'', JStr ''node_finished''), (''duration'', duration)] data))])
   }"

definition case_agent_thought ::
  "int option \<Rightarrow> (string \<times> jsvalue) list \<Rightarrow> stream_state
     \<Rightarrow> (stream_state \<times> stream_part list) option" where
  "case_agent_thought created_at data state =
     Some (state,
           (if has_field ''id'' data \<and> is_string (field ''id'' data) \<and> num_truthy created_at
            then [ResponseMetadata (field ''id'' data)
                    (map_option date_of_seconds created_at)]
            else [])
           @ [Raw (JObj (obj_spread [(''difyEvent'', JStr ''agent_thought'')] data))])"

definition case_message ::
  "string \<Rightarrow> int option \<Rightarrow> (string \<times> jsvalue) list \<Rightarrow> stream_state
     \<Rightarrow> (stream_state \<times> stream_part list) option" where
  "case_message newId created_at data state =
     (case field ''answer'' data of
        JStr answer \<Rightarrow>
          if has_field ''answer'' data then
            let (state1, parts) = parseContentWithThinking newId answer state
            in Some (state1,
                     parts @
                     (if field ''event'' data = JStr ''agent_message'' \<and> has_field ''id'' data
                         \<and> is_string (field ''id'' data)
                      then [ResponseMetadata (field ''id'' data)
                              (if num_truthy created_at
                               then map_option date_of_seconds created_at else None)]
                      else []))
          else Some (state, [])
      | _ \<Rightarrow> Some (state, []))"

definition case_message_end ::
  "(string \<times> jsvalue) list \<Rightarrow> stream_state \<Rightarrow> (stream_state \<times> stream_part list) option" where
  "case_message_end data state = do {
     let textEnd = (if isActiveText state then [TextEnd ''answer''] else []);
     let state1 = (if isActiveText state then state\<lparr>isActiveText := False\<rparr> else state);
     let usage =
           (if has_field ''metadata'' data \<and> truthy (field ''metadata'' data)
               \<and> is_object (field ''metadata'' data)
               \<and> has_key ''usage'' (field ''metadata'' data)
            then get_prop ''usage'' (field ''metadata'' data) else JUndefined);
     let dataTokens =
           (if has_field ''data'' data \<and> data_is_object data
               \<and> has_key ''total_tokens'' (field ''data'' data)
               \<and> is_number (get_prop ''total_tokens'' (field ''data'' data))
            then get_prop ''total_tokens'' (field ''data'' data) else JUndefined);
     let outputTokens = (if dataTokens \<noteq> JUndefined then dataTokens else JNum 0);
     let totalTokens =
           (if dataTokens \<noteq> JUndefined then dataTokens else get_prop ''total_tokens'' usage);
     executionReport \<leftarrow> executionReport_message_end state1;
     Some (state1,
           textEnd @
           [Finish Stop
              \<lparr>inputTokens = get_prop ''prompt_tokens'' usage,
               outputTokens = outputTokens, totalTokens = totalTokens\<rparr>
              \<lparr>md_conversationId = conversationId state1, md_messageId = messageId state1,
               md_taskId = taskId state1, md_workflowExecution = executionReport\<rparr>])
   }"

definition case_default ::
  "(string \<times> jsvalue) list \<Rightarrow> stream_state \<Rightarrow> (stream_state \<times> stream_part list) option" where
  "case_default data state =
     Some (state, [Raw (JObj (obj_spread [(''difyEvent'', field ''event'' data)] data))])"

text \<open>
  \<^verbatim>\<open>if (data.conversation_id) state.conversationId = data.conversation_id\<close>, and the
  same for the message and the task id.
\<close>

definition storeIds ::
  "string option \<Rightarrow> string option \<Rightarrow> string option \<Rightarrow> stream_state \<Rightarrow> stream_state" where
  "storeIds conversation_id message_id task_id state =
     (let state1 = (if str_truthy conversation_id
                    then state\<lparr>conversationId := conversation_id\<rparr> else state);
          state2 = (if str_truthy message_id
                    then state1\<lparr>messageId := message_id\<rparr> else state1)
      in if str_truthy task_id then state2\<lparr>taskId := task_id\<rparr> else state2)"

text \<open>
  \<^verbatim>\<open>transform(chunk, controller)\<close> of the \<^verbatim>\<open>TransformStream\<close>: the state after
  the chunk and the parts enqueued for it, in order. The four correlation fields are
  read at the types the base schema of the events gives them. The result is \<open>None\<close>
  when they have other types, which the base schema excludes, and when the call
  throws.
\<close>

definition transform ::
  "string \<Rightarrow> stream_state \<Rightarrow> chunk \<Rightarrow> (stream_state \<times> stream_part list) option" where
  "transform newId state chunk =
     (case chunk of
        Failure err \<Rightarrow> Some (state, [ErrorPart err])
      | Success data \<Rightarrow> do {
          conversation_id \<leftarrow> opt_string (field ''conversation_id'' data);
          message_id \<leftarrow> opt_string (field ''message_id'' data);
          task_id \<leftarrow> opt_string (field ''task_id'' data);
          created_at \<leftarrow> opt_number (field ''created_at'' data);
          let state1 = storeIds conversation_id message_id task_id state;
          let event = field ''event'' data;
          if event = JStr ''workflow_started'' then case_workflow_started data state1
          else if event = JStr ''workflow_finished'' then case_workflow_finished data state1
          else if event = JStr ''node_started'' then case_node_started created_at data state1
          else if event = JStr ''node_finished'' then case_node_finished created_at data state1
          else if event = JStr ''agent_thought'' then case_agent_thought created_at data state1
          else if event = JStr ''message'' \<or> event = JStr ''agent_message''
            then case_message newId created_at data state1
          else if event = JStr ''message_end'' then case_message_end data state1
          else case_default data state1
        })"

text \<open>
  The transform over the elements of a stream, in order: \<open>gen n\<close> is the id that
  \<^verbatim>\<open>generateId()\<close> returns while element \<open>n\<close> is processed.
\<close>

fun pipeThrough ::
  "(nat \<Rightarrow> string) \<Rightarrow> nat \<Rightarrow> stream_state \<Rightarrow> chunk list
     \<Rightarrow> (stream_state \<times> stream_part list) option" where
  "pipeThrough gen n state [] = Some (state, [])"
| "pipeThrough gen n state (c # cs) =
     (case transform (gen n) state c of
        None \<Rightarrow> None
      | Some (state1, ps) \<Rightarrow>
          (case pipeThrough gen (Suc n) state1 cs of
             None \<Rightarrow> None
           | Some (state2, qs) \<Rightarrow> Some (state2, ps @ qs)))"

section \<open>The event schema\<close>

text \<open>
  The schemas of \<^verbatim>\<open>dify-chat-schema.ts\<close> are values of the validation library; a
  \<open>schema\<close> is such a value, for the combinators the file uses, and \<open>safeParse\<close>
  is the library's parse: \<open>None\<close> when the value is refused, the parsed value
  otherwise. An object schema checks the properties of its shape (an absent property
  is read as undefined) and returns them, in the order of the shape, followed by the
  properties it does not name when it is \<^verbatim>\<open>passthrough\<close>; otherwise those are
  stripped. The object and the record schema never set a property named
  \<^verbatim>\<open>__proto__\<close> on their result.
\<close>

datatype schema =
    ZString
  | ZNumber
  | ZAny
  | ZUnknown
  | ZLiteral string
  | ZOptional schema
  | ZNullable schema
  | ZArray schema
  | ZRecord schema
  | ZObject "(string \<times> schema) list" bool
  | ZDiscriminatedUnion string "schema list"
  | ZUnion "schema list"

text \<open>The literal an option of a discriminated union has for the discriminator.\<close>

fun discriminator_of :: "string \<Rightarrow> schema \<Rightarrow> string option" where
  "discriminator_of disc (ZObject shape passthrough) =
     (case map_of shape disc of Some (ZLiteral tag) \<Rightarrow> Some tag | _ \<Rightarrow> None)"
| "discriminator_of disc t = None"

fun first_some :: "'a option list \<Rightarrow> 'a option" where
  "first_some [] = None"
| "first_some (None # xs) = first_some xs"
| "first_some (Some x # xs) = Some x"

fun safeParse :: "schema \<Rightarrow> jsvalue \<Rightarrow> jsvalue option" where
  "safeParse ZString v = (if is_string v then Some v else None)"
| "safeParse ZNumber v = (if is_number v then Some v else None)"
| "safeParse ZAny v = Some v"
| "safeParse ZUnknown v = Some v"
| "safeParse (ZLiteral s) v = (if v = JStr s then Some v else None)"
| "safeParse (ZOptional t) v = (if v = JUndefined then Some JUndefined else safeParse t v)"
| "safeParse (ZNullable t) v = (if v = JNull then Some JNull else safeParse t v)"
| "safeParse (ZArray t) v =
     (case v of
        JArr xs \<Rightarrow> map_option JArr (those (map (safeParse t) xs))
      | _ \<Rightarrow> None)"
| "safeParse (ZRecord t) v =
     (case v of
        JObj kvs \<Rightarrow>
          map_option
            (\<lambda>vs. JObj (filter (\<lambda>kv. fst kv \<noteq> ''__proto__'') (zip (map fst kvs) vs)))
            (those (map (\<lambda>kv. safeParse t (snd kv)) kvs))
      | _ \<Rightarrow> None)"
| "safeParse (ZObject shape passthrough) v =
     (case v of
        JObj kvs \<Rightarrow>
          map_option
            (\<lambda>vs. JObj
               (filter (\<lambda>kv. fst kv \<noteq> ''__proto__''
                              \<and> (has_field (fst kv) kvs \<or> snd kv \<noteq> JUndefined))
                  (zip (map fst shape) vs)
                @ (if passthrough
                   then filter (\<lambda>kv. fst kv \<noteq> ''__proto__'' \<and> map_of shape (fst kv) = None) kvs
                   else [])))
            (those (map (\<lambda>kt. safeParse (snd kt) (field (fst kt) kvs)) shape))
      | _ \<Rightarrow> None)"
| "safeParse (ZDiscriminatedUnion disc options) v =
     (case v of
        JObj kvs \<Rightarrow>
          first_some
            (map (\<lambda>t. if map_option JStr (discriminator_of disc t) = Some (field disc kvs)
                       then Some (safeParse t v) else None) options) \<bind> id
      | _ \<Rightarrow> None)"
| "safeParse (ZUnion options) v = first_some (map (\<lambda>t. safeParse t v) options)"

text \<open>\<^verbatim>\<open>base.extend(augmentation)\<close>: the shape \<^verbatim>\<open>{ ...shape, ...augmentation }\<close>.\<close>

fun extend :: "schema \<Rightarrow> (string \<times> schema) list \<Rightarrow> schema" where
  "extend (ZObject shape passthrough) augmentation =
     ZObject (obj_spread shape augmentation) passthrough"
| "extend t augmentation = t"

definition difyStreamEventBase :: schema where
  "difyStreamEventBase =
     ZObject
       [(''event'', ZString),
        (''conversation_id'', ZOptional ZString),
        (''message_id'', ZOptional ZString),
        (''task_id'', ZOptional ZString),
        (''created_at'', ZOptional ZNumber)] True"

definition workflowStartedSchema :: schema where
  "workflowStartedSchema =
     extend difyStreamEventBase
       [(''event'', ZLiteral ''workflow_started''),
        (''workflow_run_id'', ZString),
        (''data'', ZObject
           [(''id'', ZString),
            (''workflow_id'', ZString),
            (''created_at'', ZNumber),
            (''inputs'', ZRecord ZAny)] True)]"

definition workflowFinishedSchema :: schema where
  "workflowFinishedSchema =
     extend difyStreamEventBase
       [(''event'', ZLiteral ''workflow_finished''),
        (''workflow_run_id'', ZString),
        (''data'', ZObject
           [(''id'', ZString),
            (''workflow_id'', ZString),
            (''total_tokens'', ZNumber),
            (''created_at'', ZNumber),
            (''status'', ZString),
            (''outputs'', ZRecord ZAny),
            (''error'', ZString),
            (''elapsed_time'', ZNumber),
            (''total_steps'', ZNumber),
            (''created_by'', ZObject [(''id'', ZString), (''user'', ZString)] False),
            (''finished_at'', ZNumber),
            (''exceptions_count'', ZNumber),
            (''files'', ZArray ZAny)] True)]"

definition nodeStartedSchema :: schema where
  "nodeStartedSchema =
     extend difyStreamEventBase
       [(''event'', ZLiteral ''node_started''),
        (''workflow_run_id'', ZString),
        (''data'', ZObject
           [(''id'', ZString),
            (''node_id'', ZString),
            (''node_type'', ZString),
            (''title'', ZString),
            (''index'', ZNumber),
            (''predecessor_node_id'', ZNullable ZString),
            (''inputs'', ZNullable (ZRecord ZAny)),
            (''created_at'', ZNumber),
            (''extras'', ZRecord ZAny),
            (''parallel_id'', ZNullable ZString),
            (''parallel_start_node_id'', ZNullable ZString),
            (''parent_parallel_id'', ZNullable ZString),
            (''parent_parallel_start_node_id'', ZNullable ZString),
            (''iteration_id'', ZNullable ZString),
            (''loop_id'', ZNullable ZString),
            (''parallel_run_id'', ZNullable ZString),
            (''agent_strategy'', ZNullable ZAny)] True)]"

definition nodeFinishedSchema :: schema where
  "nodeFinishedSchema =
     extend difyStreamEventBase
       [(''event'', ZLiteral ''node_finished''),
        (''workflow_run_id'', ZString),
        (''data'', ZObject
           [(''id'', ZString),
            (''node_id'', ZString),
            (''node_type'', ZString),
            (''title'', ZString),
            (''index'', ZNumber),
            (''predecessor_node_id'', ZNullable ZString),
            (''inputs'', ZNullable (ZRecord ZAny)),
            (''process_data'', ZNullable ZAny),
            (''outputs'', ZNullable (ZRecord ZAny)),
            (''status'', ZString),
            (''error'', ZNullable ZString),
            (''elapsed_time'', ZNumber),
            (''execution_metadata'', ZNullable (ZRecord ZAny)),
            (''created_at'', ZNumber),
            (''finished_at'', ZNumber),
            (''files'', ZArray ZAny),
            (''parallel_id'', ZNullable ZString),
            (''parallel_start_node_id'', ZNullable ZString),
            (''parent_parallel_id'', ZNullable ZString),
            (''parent_parallel_start_node_id'', ZNullable ZString),
            (''iteration_id'', ZNullable ZString),
            (''loop_id'', ZNullable ZString)] True)]"

definition messageSchema :: schema where
  "messageSchema =
     extend difyStreamEventBase
       [(''event'', ZLiteral ''message''),
        (''id'', ZOptional ZString),
        (''answer'', ZString),
        (''from_variable_selector'', ZOptional (ZArray ZString))]"

definition messageEndSchema :: schema where
  "messageEndSchema =
     extend difyStreamEventBase
       [(''event'', ZLiteral ''message_end''),
        (''id'', ZString),
        (''metadata'', ZObject
           [(''usage'', ZObject
               [(''prompt_tokens'', ZNumber),
                (''completion_tokens'', ZNumber),
                (''total_tokens'', ZNumber),
                (''prompt_unit_price'', ZString),
                (''prompt_price_unit'', ZString),
                (''prompt_price'', ZString),
                (''completion_unit_price'', ZString),
                (''completion_price_unit'', ZString),
                (''completion_price'', ZString),
                (''total_price'', ZString),
                (''currency'', ZString),
                (''latency'', ZNumber)] True),
            (''annotation_reply'', ZNullable ZAny),
            (''retriever_resources'', ZArray ZAny)] True),
        (''files'', ZArray ZAny),
        (''quoteInfo'', ZRecord ZAny)]"

definition ttsMessageSchema :: schema where
  "ttsMessageSchema =
     extend difyStreamEventBase
       [(''event'', ZLiteral ''tts_message''), (''audio'', ZString)]"

definition ttsMessageEndSchema :: schema where
  "ttsMessageEndSchema =
     extend difyStreamEventBase
       [(''event'', ZLiteral ''tts_message_end''), (''audio'', ZString)]"

definition pingSchema :: schema where
  "pingSchema = extend difyStreamEventBase [(''event'', ZLiteral ''ping'')]"

definition agentMessageSchema :: schema where
  "agentMessageSchema =
     extend difyStreamEventBase
       [(''event'', ZLiteral ''agent_message''), (''answer'', ZString)]"

definition agentThoughtSchema :: schema where
  "agentThoughtSchema =
     extend difyStreamEventBase
       [(''event'', ZLiteral ''agent_thought''),
        (''thought'', ZString),
        (''observation'', ZString),
        (''tool'', ZString),
        (''tool_labels'', ZRecord ZString),
        (''tool_input'', ZString),
        (''message_files'', ZArray ZUnknown)]"

definition difyStreamEventSchema :: schema where
  "difyStreamEventSchema =
     ZUnion
       [ZDiscriminatedUnion ''event''
          [workflowStartedSchema,
           workflowFinishedSchema,
           nodeStartedSchema,
           nodeFinishedSchema,
           messageSchema,
           messageEndSchema,
           ttsMessageSchema,
           ttsMessageEndSchema,
           agentThoughtSchema,
           agentMessageSchema,
           pingSchema],
        difyStreamEventBase]"

text \<open>The event kinds the discriminated union knows.\<close>

definition known_kinds :: "string list" where
  "known_kinds =
     [''workflow_started'', ''workflow_finished'', ''node_started'', ''node_finished'',
      ''message'', ''message_end'', ''tts_message'', ''tts_message_end'',
      ''agent_thought'', ''agent_message'', ''ping'']"

text \<open>
  The decoder of the response handler scans the value a text decodes to and refuses
  it when an object in it, at any depth, has a \<^verbatim>\<open>__proto__\<close> property, or a
  \<^verbatim>\<open>constructor\<close> property that is null or an object with a \<^verbatim>\<open>prototype\<close>
  property. (It scans only when the text spells one of the two names, so a name
  written with escape sequences passes; the elements here are taken to be written
  without them.)
\<close>

fun forbidden :: "jsvalue \<Rightarrow> bool" where
  "forbidden (JObj kvs) =
     (has_field ''__proto__'' kvs
      \<or> (case map_of kvs ''constructor'' of
            Some JNull \<Rightarrow> True
          | Some (JObj c) \<Rightarrow> has_field ''prototype'' c
          | _ \<Rightarrow> False)
      \<or> list_ex (\<lambda>kv. forbidden (snd kv)) kvs)"
| "forbidden (JArr xs) = list_ex forbidden xs"
| "forbidden v = False"

text \<open>
  The response handler on one element of the event stream, given as the value its
  text decodes to: a failed element when the decoder refuses the value, and the value
  validated against \<open>difyStreamEventSchema\<close> otherwise.
\<close>

definition parse_event :: "jsvalue \<Rightarrow> chunk" where
  "parse_event raw =
     (if forbidden raw then Failure (ForbiddenProperty raw)
      else (case safeParse difyStreamEventSchema raw of
              Some (JObj data) \<Rightarrow> Success data
            | _ \<Rightarrow> Failure (TypeValidationError raw)))"

section \<open>Request construction and the blocking response\<close>

text \<open>
  A part of a message's content: a string, null, or an object, of which the request
  construction reads the \<^verbatim>\<open>type\<close> tag and the \<^verbatim>\<open>text\<close>, each present or not.
\<close>

datatype content_part = StringPart string | NullPart | ObjectPart "string option" "string option"

datatype message_content =
    TextContent string
  | PartsContent "content_part list"
  | OtherContent

record message =
  role :: string
  content :: message_content

text \<open>
  The call options \<^verbatim>\<open>getRequestBody\<close> reads: the prompt, the \<^verbatim>\<open>messages\<close> of
  the older interface, the request headers.
\<close>

record call_options =
  prompt :: "message list option"
  messages :: "message list option"
  headers :: "(string \<times> string) list option"

record dify_chat_settings =
  settings_inputs :: "jsvalue option"
  settings_responseMode :: "string option"

record request_body =
  inputs :: jsvalue
  query :: string
  response_mode :: "string option"
  conversation_id :: "string option"
  user :: string

datatype request_body_values =
    OptionsValues call_options
  | LatestMessageRole string
  | HasAttachments bool

text \<open>\<^verbatim>\<open>APICallError\<close>: message, url, requestBodyValues.\<close>

datatype api_call_error = APICallError string string request_body_values

text \<open>The test of \<^verbatim>\<open>latestMessage.content.some(...)\<close>: a part of type file.\<close>

fun is_file_part :: "content_part \<Rightarrow> bool" where
  "is_file_part (ObjectPart (Some t) text) = (t = ''file'')"
| "is_file_part part = False"

definition hasAttachments :: "message \<Rightarrow> bool" where
  "hasAttachments latestMessage =
     (case content latestMessage of
        PartsContent parts \<Rightarrow> list_ex is_file_part parts
      | _ \<Rightarrow> False)"

text \<open>The text a part contributes to the query.\<close>

fun part_text :: "content_part \<Rightarrow> string" where
  "part_text (StringPart s) = s"
| "part_text (ObjectPart (Some t) (Some text)) = (if t = ''text'' then text else [])"
| "part_text part = []"

definition query_of :: "message \<Rightarrow> string" where
  "query_of latestMessage =
     (case content latestMessage of
        TextContent s \<Rightarrow> s
      | PartsContent parts \<Rightarrow> join '' '' (filter (\<lambda>t. t \<noteq> []) (map part_text parts))
      | OtherContent \<Rightarrow> [])"

text \<open>
  \<^verbatim>\<open>getRequestBody\<close>. A \<^verbatim>\<open>throw\<close> is \<open>Inl\<close>; the result is the request body
  and the options, whose headers lost \<^verbatim>\<open>chat-id\<close> and \<^verbatim>\<open>user-id\<close>.
\<close>

definition getRequestBody ::
  "string \<Rightarrow> dify_chat_settings \<Rightarrow> call_options
     \<Rightarrow> api_call_error + (request_body \<times> call_options)" where
  "getRequestBody chatMessagesEndpoint settings options =
     (let msgs = (case prompt options of Some p \<Rightarrow> Some p | None \<Rightarrow> messages options) in
      case msgs of
        None \<Rightarrow> Inl (APICallError ''No messages provided'' chatMessagesEndpoint
                        (OptionsValues options))
      | Some [] \<Rightarrow> Inl (APICallError ''No messages provided'' chatMessagesEndpoint
                          (OptionsValues options))
      | Some (m # ms) \<Rightarrow>
          let latestMessage = last (m # ms) in
          if role latestMessage \<noteq> ''user'' then
            Inl (APICallError ''The last message must be a user message'' chatMessagesEndpoint
                   (LatestMessageRole (role latestMessage)))
          else if hasAttachments latestMessage then
            Inl (APICallError ''Dify provider does not currently support file attachments''
                   chatMessagesEndpoint (HasAttachments True))
          else
            let hs = (case headers options of Some h \<Rightarrow> h | None \<Rightarrow> []);
                conversationId = map_of hs ''chat-id'';
                userId = (case map_of hs ''user-id'' of
                            Some u \<Rightarrow> u | None \<Rightarrow> ''you_should_pass_user-id'');
                cleanHeaders = filter (\<lambda>(k, v). k \<noteq> ''chat-id'' \<and> k \<noteq> ''user-id'') hs
            in Inr (\<lparr>inputs = (case settings_inputs settings of
                                   Some i \<Rightarrow> if truthy i then i else JObj []
                                 | None \<Rightarrow> JObj []),
                      query = query_of latestMessage,
                      response_mode = settings_responseMode settings,
                      conversation_id = conversationId,
                      user = userId\<rparr>,
                    options\<lparr>headers := Some cleanHeaders\<rparr>))"

text \<open>\<^verbatim>\<open>CompletionResponse\<close>, the validated response of the blocking mode.\<close>

record completion_response =
  cr_id :: string
  cr_answer :: string
  cr_task_id :: string
  cr_conversation_id :: string
  cr_message_id :: string
  cr_completion_tokens :: int
  cr_prompt_tokens :: int
  cr_total_tokens :: int

datatype content_block = TextBlock string

record generate_result =
  result_content :: "content_block list"
  result_finishReason :: finish_reason
  result_usage :: usage
  result_warnings :: "string list"
  result_conversationId :: string
  result_messageId :: string
  result_request :: request_body
  result_response_id :: string
  result_response_timestamp :: int
  result_response_headers :: "(string \<times> string) list"

text \<open>
  \<^verbatim>\<open>doGenerate\<close>. \<open>postJsonToApi\<close> is the network call, given the cleaned request
  headers and the body: it throws, or returns the response headers and the validated
  response. \<open>now\<close> is \<^verbatim>\<open>new Date()\<close>.
\<close>

definition doGenerate ::
  "string \<Rightarrow> dify_chat_settings
     \<Rightarrow> ((string \<times> string) list option \<Rightarrow> request_body
           \<Rightarrow> api_call_error + ((string \<times> string) list \<times> completion_response))
     \<Rightarrow> int \<Rightarrow> call_options \<Rightarrow> api_call_error + generate_result" where
  "doGenerate chatMessagesEndpoint settings postJsonToApi now options =
     (case getRequestBody chatMessagesEndpoint settings options of
        Inl e \<Rightarrow> Inl e
      | Inr (requestBody, options1) \<Rightarrow>
          (case postJsonToApi (headers options1) requestBody of
             Inl e \<Rightarrow> Inl e
           | Inr (responseHeaders, typedData) \<Rightarrow>
               Inr \<lparr>result_content =
                       (if cr_answer typedData \<noteq> [] then [TextBlock (cr_answer typedData)]
                        else []),
                     result_finishReason = Stop,
                     result_usage =
                       \<lparr>inputTokens = JNum (cr_prompt_tokens typedData),
                        outputTokens = JNum (cr_completion_tokens typedData),
                        totalTokens = JNum (cr_total_tokens typedData)\<rparr>,
                     result_warnings = [],
                     result_conversationId = cr_conversation_id typedData,
                     result_messageId = cr_message_id typedData,
                     result_request = requestBody,
                     result_response_id = cr_id typedData,
                     result_response_timestamp = now,
                     result_response_headers = responseHeaders\<rparr>))"

text \<open>
  \<^verbatim>\<open>doStream\<close>. \<open>postJsonToApi\<close> is the network call with the event-source
  response handler: it throws, or returns the response headers and the parsed
  elements of the event stream. The stream of the result is what the transform
  makes of them.
\<close>

definition doStream ::
  "string \<Rightarrow> dify_chat_settings
     \<Rightarrow> ((string \<times> string) list option \<Rightarrow> request_body
           \<Rightarrow> api_call_error + ((string \<times> string) list \<times> chunk list))
     \<Rightarrow> (nat \<Rightarrow> string) \<Rightarrow> call_options
     \<Rightarrow> api_call_error
         + ((stream_state \<times> stream_part list) option \<times> request_body \<times> (string \<times> string) list)" where
  "doStream chatMessagesEndpoint settings postJsonToApi gen options =
     (case getRequestBody chatMessagesEndpoint settings options of
        Inl e \<Rightarrow> Inl e
      | Inr (requestBody, options1) \<Rightarrow>
          let body = requestBody\<lparr>response_mode := Some ''streaming''\<rparr> in
          (case postJsonToApi (headers options1) body of
             Inl e \<Rightarrow> Inl e
           | Inr (responseHeaders, responseStream) \<Rightarrow>
               Inr (pipeThrough gen 0 initial_state responseStream, body, responseHeaders)))"

section \<open>Notions of the specification\<close>

text \<open>The correlation fields of a validated event have the types of the base schema.\<close>

definition base_typed :: "(string \<times> jsvalue) list \<Rightarrow> bool" where
  "base_typed data =
     (opt_string (field ''conversation_id'' data) \<noteq> None
      \<and> opt_string (field ''message_id'' data) \<noteq> None
      \<and> opt_string (field ''task_id'' data) \<noteq> None
      \<and> opt_number (field ''created_at'' data) \<noteq> None)"

text \<open>A shape that has the four correlation fields of the base schema.\<close>

definition common_shape :: "(string \<times> schema) list \<Rightarrow> bool" where
  "common_shape shape =
     (distinct (map fst shape)
      \<and> map_of shape ''conversation_id'' = Some (ZOptional ZString)
      \<and> map_of shape ''message_id'' = Some (ZOptional ZString)
      \<and> map_of shape ''task_id'' = Some (ZOptional ZString)
      \<and> map_of shape ''created_at'' = Some (ZOptional ZNumber))"

fun is_finish :: "stream_part \<Rightarrow> bool" where
  "is_finish (Finish r u md) = True"
| "is_finish part = False"

fun is_error :: "stream_part \<Rightarrow> bool" where
  "is_error (ErrorPart e) = True"
| "is_error part = False"

fun is_failure :: "chunk \<Rightarrow> bool" where
  "is_failure (Failure e) = True"
| "is_failure (Success data) = False"

text \<open>The element is a validated event of the given kind.\<close>

fun has_event :: "string \<Rightarrow> chunk \<Rightarrow> bool" where
  "has_event tag (Failure e) = False"
| "has_event tag (Success data) = (field ''event'' data = JStr tag)"

text \<open>The non-empty identifier an element carries under the name \<open>k\<close>, if any.\<close>

fun chunk_id :: "string \<Rightarrow> chunk \<Rightarrow> string option" where
  "chunk_id k (Failure e) = None"
| "chunk_id k (Success data) =
     (case field k data of JStr s \<Rightarrow> if s = [] then None else Some s | _ \<Rightarrow> None)"

text \<open>The first and the last non-empty identifier of a sequence of elements.\<close>

fun first_id :: "string \<Rightarrow> chunk list \<Rightarrow> string option" where
  "first_id k [] = None"
| "first_id k (c # cs) = (case chunk_id k c of Some x \<Rightarrow> Some x | None \<Rightarrow> first_id k cs)"

fun last_id :: "string \<Rightarrow> chunk list \<Rightarrow> string option" where
  "last_id k [] = None"
| "last_id k (c # cs) = (case last_id k cs of Some x \<Rightarrow> Some x | None \<Rightarrow> chunk_id k c)"

text \<open>
  The message list of a request (empty when absent), and the three reasons the
  specification gives for a request to fail construction.
\<close>

definition message_list :: "call_options \<Rightarrow> message list" where
  "message_list options =
     (case prompt options of
        Some p \<Rightarrow> p
      | None \<Rightarrow> (case messages options of Some m \<Rightarrow> m | None \<Rightarrow> []))"

definition has_file_part :: "message \<Rightarrow> bool" where
  "has_file_part m =
     (case content m of
        PartsContent parts \<Rightarrow> (\<exists>text. ObjectPart (Some ''file'') text \<in> set parts)
      | _ \<Rightarrow> False)"

definition construction_fails :: "call_options \<Rightarrow> bool" where
  "construction_fails options =
     (message_list options = []
      \<or> role (last (message_list options)) \<noteq> ''user''
      \<or> has_file_part (last (message_list options)))"

text \<open>
  The coercions of the translator on an event: the \<^verbatim>\<open>workflow_started\<close> case
  multiplies \<^verbatim>\<open>data.created_at\<close>, the \<^verbatim>\<open>workflow_finished\<close> case
  \<^verbatim>\<open>data.finished_at\<close>, and the two node cases write \<^verbatim>\<open>data.node_id\<close> into a
  template literal, behind their guard. The event is \<open>calm\<close> when none of them
  throws, as when the property is absent, a number, a string, or any other
  primitive.
\<close>

definition calm :: "(string \<times> jsvalue) list \<Rightarrow> bool" where
  "calm data =
     (let d = field ''data'' data; event = field ''event'' data in
      (event = JStr ''workflow_started'' \<longrightarrow> \<not> coercion_throws (get_prop ''created_at'' d))
      \<and> (event = JStr ''workflow_finished''
             \<longrightarrow> \<not> coercion_throws (get_prop ''finished_at'' d))
      \<and> (event = JStr ''node_started'' \<and> has_key ''node_type'' d
             \<and> truthy (field ''created_at'' data)
             \<longrightarrow> \<not> coercion_throws (get_prop ''node_id'' d))
      \<and> (event = JStr ''node_finished'' \<and> truthy (field ''created_at'' data)
             \<longrightarrow> \<not> coercion_throws (get_prop ''node_id'' d)))"

text \<open>
  An element of a stream as the response handler delivers it, on which no coercion
  of the translator throws: a failed element, or a calm event whose correlation
  fields have the types of the base schema.
\<close>

definition translatable :: "chunk \<Rightarrow> bool" where
  "translatable c =
     (case c of Failure e \<Rightarrow> True | Success data \<Rightarrow> base_typed data \<and> calm data)"

text \<open>No coercion throws on the two workflow timestamps of a state.\<close>

definition calm_state :: "stream_state \<Rightarrow> bool" where
  "calm_state state =
     (\<not> coercion_throws (workflowStartedAt state)
      \<and> \<not> coercion_throws (workflowFinishedAt state))"

text \<open>The execution report a part carries, if it is a finish part.\<close>

fun report_of :: "stream_part \<Rightarrow> execution_report option option" where
  "report_of (Finish r u md) = Some (md_workflowExecution md)"
| "report_of part = None"

text \<open>
  The parts below stand for what a case of the switch may enqueue besides a terminal
  part, and \<open>finish_with\<close> for a finish part that carries the identifiers of a state.
\<close>

fun is_passthrough :: "stream_part \<Rightarrow> bool" where
  "is_passthrough (ResponseMetadata i t) = True"
| "is_passthrough (Raw v) = True"
| "is_passthrough (ReasoningStart i) = True"
| "is_passthrough (ReasoningDelta i d) = True"
| "is_passthrough (ReasoningEnd i) = True"
| "is_passthrough (TextStart i) = True"
| "is_passthrough (TextDelta i d) = True"
| "is_passthrough (TextEnd i) = True"
| "is_passthrough (Finish r u md) = False"
| "is_passthrough (ErrorPart e) = False"

fun finish_with :: "stream_state \<Rightarrow> stream_part \<Rightarrow> bool" where
  "finish_with state (Finish r u md) =
     (md_conversationId md = conversationId state
      \<and> md_messageId md = messageId state
      \<and> md_taskId md = taskId state)"
| "finish_with state part = False"

definition same_ids :: "stream_state \<Rightarrow> stream_state \<Rightarrow> bool" where
  "same_ids state state' =
     (conversationId state' = conversationId state
      \<and> messageId state' = messageId state
      \<and> taskId state' = taskId state)"

text \<open>The identifier stored after an element, given the one stored before it.\<close>

definition stored_id :: "string \<Rightarrow> chunk \<Rightarrow> string option \<Rightarrow> string option" where
  "stored_id k c old = (case chunk_id k c of Some x \<Rightarrow> Some x | None \<Rightarrow> old)"

section \<open>Objects and schemas\<close>

lemma field_obj_spread:
  "field k (obj_spread own data) = (if has_field k data then field k data else field k own)"
proof -
  have own: "map_of (map (\<lambda>kv. (fst kv, case map_of data (fst kv) of Some w \<Rightarrow> w | None \<Rightarrow> snd kv)) own) k
      = (case map_of own k of None \<Rightarrow> None
         | Some v \<Rightarrow> Some (case map_of data k of Some w \<Rightarrow> w | None \<Rightarrow> v))"
    by (induction own) auto
  have rest: "map_of (filter (\<lambda>kv. map_of own (fst kv) = None) data) k
      = (if map_of own k = None then map_of data k else None)"
    by (induction data) auto
  show ?thesis
    unfolding field_def has_field_def obj_spread_def map_of_append map_add_def own rest
    by (auto split: option.splits)
qed

lemma those_Some: "those xs = Some ys \<Longrightarrow> xs = map Some ys"
  by (induction xs arbitrary: ys) (auto split: option.splits)

lemma first_some_in: "first_some xs = Some y \<Longrightarrow> Some y \<in> set xs"
  by (induction xs rule: first_some.induct) auto

lemma zip_filter_absent:
  "k \<notin> set ks \<Longrightarrow> map_of (filter P (zip ks vs)) k = None"
  by (auto simp: map_of_eq_None_iff dest: set_zip_leftD)

lemma shape_values:
  assumes "map (\<lambda>kt. safeParse (snd kt) (field (fst kt) kvs)) shape = map Some vs"
    and "distinct (map fst shape)"
    and "map_of shape k = Some t"
  shows "\<exists>v. safeParse t (field k kvs) = Some v
           \<and> map_of (filter P (zip (map fst shape) vs)) k = (if P (k, v) then Some v else None)"
  using assms
proof (induction shape arbitrary: vs)
  case Nil
  then show ?case by simp
next
  case (Cons kt shape)
  obtain v0 vs' where vs: "vs = v0 # vs'"
    using Cons.prems(1) by (cases vs) auto
  show ?case
  proof (cases "fst kt = k")
    case True
    then have t: "snd kt = t"
      using Cons.prems(3) by (cases kt) auto
    have "k \<notin> set (map fst shape)"
      using Cons.prems(2) True by auto
    then have "map_of (filter P (zip (map fst shape) vs')) k = None"
      by (rule zip_filter_absent)
    then show ?thesis
      using Cons.prems(1) True t vs by auto
  next
    case False
    then have m: "map_of shape k = Some t"
      using Cons.prems(3) by (cases kt) auto
    have p: "map (\<lambda>kt. safeParse (snd kt) (field (fst kt) kvs)) shape = map Some vs'"
      using Cons.prems(1) vs by simp
    have d: "distinct (map fst shape)"
      using Cons.prems(2) by simp
    have "\<exists>v. safeParse t (field k kvs) = Some v
           \<and> map_of (filter P (zip (map fst shape) vs')) k = (if P (k, v) then Some v else None)"
      by (rule Cons.IH [OF p d m])
    then show ?thesis
      using False vs by auto
  qed
qed

lemma filter_shape_absent:
  "map_of shape k = Some t
     \<Longrightarrow> map_of (filter (\<lambda>kv. fst kv \<noteq> ''__proto__'' \<and> map_of shape (fst kv) = None) kvs) k
           = None"
  by (induction kvs) auto

lemma filter_shape_present:
  "map_of shape k = None \<Longrightarrow> k \<noteq> ''__proto__''
     \<Longrightarrow> map_of (filter (\<lambda>kv. fst kv \<noteq> ''__proto__'' \<and> map_of shape (fst kv) = None) kvs) k
           = map_of kvs k"
  by (induction kvs) auto

lemma filter_proto_absent:
  "map_of (filter (\<lambda>kv. fst kv \<noteq> ''__proto__'' \<and> P kv) kvs) ''__proto__'' = None"
  by (induction kvs) auto

lemma safeParse_object_field:
  assumes p: "safeParse (ZObject shape passthrough) (JObj kvs) = Some (JObj out)"
    and d: "distinct (map fst shape)"
    and m: "map_of shape k = Some t"
    and n: "k \<noteq> ''__proto__''"
  shows "safeParse t (field k kvs) = Some (field k out)"
    and "has_field k out = (has_field k kvs \<or> field k out \<noteq> JUndefined)"
proof -
  let ?P = "\<lambda>kv. fst kv \<noteq> ''__proto__'' \<and> (has_field (fst kv) kvs \<or> snd kv \<noteq> JUndefined)"
  let ?extra = "if passthrough
                then filter (\<lambda>kv. fst kv \<noteq> ''__proto__'' \<and> map_of shape (fst kv) = None) kvs
                else []"
  obtain vs where th: "those (map (\<lambda>kt. safeParse (snd kt) (field (fst kt) kvs)) shape) = Some vs"
    and out: "out = filter ?P (zip (map fst shape) vs) @ ?extra"
    using p by auto
  have vs: "map (\<lambda>kt. safeParse (snd kt) (field (fst kt) kvs)) shape = map Some vs"
    using th by (rule those_Some)
  obtain v where v: "safeParse t (field k kvs) = Some v"
    and look: "map_of (filter ?P (zip (map fst shape) vs)) k = (if ?P (k, v) then Some v else None)"
    using shape_values [OF vs d m, of ?P] by blast
  have extra: "map_of ?extra k = None"
    by (simp add: filter_shape_absent [OF m])
  have m_out: "map_of out k = (if ?P (k, v) then Some v else None)"
    unfolding out map_of_append map_add_def look extra by simp
  then have f: "field k out = v"
    using n by (auto simp: field_def)
  show "safeParse t (field k kvs) = Some (field k out)"
    using v f by simp
  show "has_field k out = (has_field k kvs \<or> field k out \<noteq> JUndefined)"
    using m_out f n by (auto simp: has_field_def)
qed

lemma safeParse_object_other:
  assumes p: "safeParse (ZObject shape True) (JObj kvs) = Some (JObj out)"
    and m: "map_of shape k = None"
    and n: "k \<noteq> ''__proto__''"
  shows "map_of out k = map_of kvs k"
proof -
  let ?P = "\<lambda>kv. fst kv \<noteq> ''__proto__'' \<and> (has_field (fst kv) kvs \<or> snd kv \<noteq> JUndefined)"
  obtain vs where out: "out = filter ?P (zip (map fst shape) vs)
                          @ filter (\<lambda>kv. fst kv \<noteq> ''__proto__'' \<and> map_of shape (fst kv) = None) kvs"
    using p by auto
  have "k \<notin> set (map fst shape)"
    using m by (simp add: map_of_eq_None_iff)
  then have "map_of (filter ?P (zip (map fst shape) vs)) k = None"
    by (rule zip_filter_absent)
  then show ?thesis
    unfolding out map_of_append map_add_def using filter_shape_present [OF m n]
    by (simp split: option.splits)
qed

lemma safeParse_object_proto:
  assumes p: "safeParse (ZObject shape passthrough) (JObj kvs) = Some (JObj out)"
  shows "map_of out ''__proto__'' = None"
proof -
  let ?P = "\<lambda>kv. has_field (fst kv) kvs \<or> snd kv \<noteq> JUndefined"
  let ?Q = "\<lambda>kv. map_of shape (fst kv) = None"
  obtain vs where out: "out = filter (\<lambda>kv. fst kv \<noteq> ''__proto__'' \<and> ?P kv) (zip (map fst shape) vs)
      @ (if passthrough then filter (\<lambda>kv. fst kv \<noteq> ''__proto__'' \<and> ?Q kv) kvs else [])"
    using p by auto
  show ?thesis
    unfolding out map_of_append map_add_def
    by (simp add: filter_proto_absent [of ?P] filter_proto_absent [of ?Q])
qed

lemma safeParse_union:
  assumes "safeParse (ZUnion options) v = Some r"
  shows "\<exists>t\<in>set options. safeParse t v = Some r"
proof -
  have "Some r \<in> (\<lambda>t. safeParse t v) ` set options"
    using assms first_some_in by fastforce
  then obtain t where "t \<in> set options" and "Some r = safeParse t v"
    by blast
  then show ?thesis
    by (intro bexI [of _ t]) simp_all
qed

lemma safeParse_discriminatedUnion:
  assumes "safeParse (ZDiscriminatedUnion disc options) v = Some r"
  shows "\<exists>t\<in>set options. safeParse t v = Some r"
proof -
  obtain kvs where v: "v = JObj kvs"
    using assms by (cases v) auto
  obtain x where "first_some
            (map (\<lambda>t. if map_option JStr (discriminator_of disc t) = Some (field disc kvs)
                       then Some (safeParse t v) else None) options) = Some x"
    and x: "x = Some r"
    using assms v by (auto simp: bind_eq_Some_conv)
  then have "Some (Some r) \<in> (\<lambda>t. if map_option JStr (discriminator_of disc t) = Some (field disc kvs)
                       then Some (safeParse t v) else None) ` set options"
    using first_some_in by fastforce
  then obtain t where t: "t \<in> set options"
    and "Some (Some r) = (if map_option JStr (discriminator_of disc t) = Some (field disc kvs)
                       then Some (safeParse t v) else None)"
    by blast
  then have "safeParse t v = Some r"
    by (simp split: if_splits)
  then show ?thesis
    using t by blast
qed

lemmas event_schema_defs =
  workflowStartedSchema_def workflowFinishedSchema_def nodeStartedSchema_def
  nodeFinishedSchema_def messageSchema_def messageEndSchema_def ttsMessageSchema_def
  ttsMessageEndSchema_def agentThoughtSchema_def agentMessageSchema_def pingSchema_def
  difyStreamEventBase_def

lemma base_shape: "\<exists>shape. difyStreamEventBase = ZObject shape True \<and> common_shape shape"
  by (simp add: difyStreamEventBase_def common_shape_def)

lemma known_shapes:
  assumes "t \<in> set [workflowStartedSchema, workflowFinishedSchema, nodeStartedSchema,
                      nodeFinishedSchema, messageSchema, messageEndSchema, ttsMessageSchema,
                      ttsMessageEndSchema, agentThoughtSchema, agentMessageSchema, pingSchema]"
  shows "\<exists>shape. t = ZObject shape True \<and> common_shape shape"
  using assms
  by (auto simp: event_schema_defs common_shape_def obj_spread_def)

lemma optional_string_typed:
  "safeParse (ZOptional ZString) v = Some w \<Longrightarrow> opt_string w \<noteq> None"
  by (cases v) (auto split: if_splits)

lemma optional_number_typed:
  "safeParse (ZOptional ZNumber) v = Some w \<Longrightarrow> opt_number w \<noteq> None"
  by (cases v) (auto split: if_splits)

lemma common_shape_typed:
  assumes "safeParse (ZObject shape True) raw = Some (JObj data)" and "common_shape shape"
  shows "base_typed data"
proof -
  obtain kvs where raw: "raw = JObj kvs"
    using assms(1) by (cases raw) auto
  have p: "safeParse (ZObject shape True) (JObj kvs) = Some (JObj data)"
    using assms(1) raw by simp
  have d: "distinct (map fst shape)"
    using assms(2) by (simp add: common_shape_def)
  have c: "map_of shape ''conversation_id'' = Some (ZOptional ZString)"
    and m: "map_of shape ''message_id'' = Some (ZOptional ZString)"
    and t: "map_of shape ''task_id'' = Some (ZOptional ZString)"
    and a: "map_of shape ''created_at'' = Some (ZOptional ZNumber)"
    using assms(2) by (simp_all add: common_shape_def)
  have "opt_string (field ''conversation_id'' data) \<noteq> None"
    by (rule optional_string_typed [OF safeParse_object_field(1) [OF p d c]]) simp
  moreover have "opt_string (field ''message_id'' data) \<noteq> None"
    by (rule optional_string_typed [OF safeParse_object_field(1) [OF p d m]]) simp
  moreover have "opt_string (field ''task_id'' data) \<noteq> None"
    by (rule optional_string_typed [OF safeParse_object_field(1) [OF p d t]]) simp
  moreover have "opt_number (field ''created_at'' data) \<noteq> None"
    by (rule optional_number_typed [OF safeParse_object_field(1) [OF p d a]]) simp
  ultimately show ?thesis
    by (simp add: base_typed_def)
qed

lemma parse_event_Success:
  assumes "parse_event raw = Success data"
  shows "safeParse difyStreamEventSchema raw = Some (JObj data)" and "\<not> forbidden raw"
  using assms
  by (auto simp: parse_event_def split: option.splits jsvalue.splits if_splits)

lemma parse_event_typed:
  assumes "parse_event raw = Success data"
  shows "base_typed data"
proof -
  have "safeParse difyStreamEventSchema raw = Some (JObj data)"
    using assms by (rule parse_event_Success(1))
  then obtain t where t: "t \<in> set [ZDiscriminatedUnion ''event''
          [workflowStartedSchema, workflowFinishedSchema, nodeStartedSchema,
           nodeFinishedSchema, messageSchema, messageEndSchema, ttsMessageSchema,
           ttsMessageEndSchema, agentThoughtSchema, agentMessageSchema, pingSchema],
        difyStreamEventBase]" and p: "safeParse t raw = Some (JObj data)"
    unfolding difyStreamEventSchema_def by (blast dest: safeParse_union)
  then consider
      (known) "safeParse (ZDiscriminatedUnion ''event''
          [workflowStartedSchema, workflowFinishedSchema, nodeStartedSchema,
           nodeFinishedSchema, messageSchema, messageEndSchema, ttsMessageSchema,
           ttsMessageEndSchema, agentThoughtSchema, agentMessageSchema, pingSchema]) raw
          = Some (JObj data)"
    | (fallback) "safeParse difyStreamEventBase raw = Some (JObj data)"
    by auto
  then show ?thesis
  proof cases
    case known
    then obtain u where "u \<in> set [workflowStartedSchema, workflowFinishedSchema, nodeStartedSchema,
           nodeFinishedSchema, messageSchema, messageEndSchema, ttsMessageSchema,
           ttsMessageEndSchema, agentThoughtSchema, agentMessageSchema, pingSchema]"
      and u: "safeParse u raw = Some (JObj data)"
      by (blast dest: safeParse_discriminatedUnion)
    then obtain shape where "u = ZObject shape True" and "common_shape shape"
      using known_shapes by blast
    then show ?thesis
      using u common_shape_typed by blast
  next
    case fallback
    then show ?thesis
      using base_shape common_shape_typed by metis
  qed
qed

section \<open>Validated events\<close>

lemma storeIds_simps [simp]:
  "isInThinking (storeIds c m t state) = isInThinking state"
  "reasoningId (storeIds c m t state) = reasoningId state"
  "isActiveText (storeIds c m t state) = isActiveText state"
  "isActiveReasoning (storeIds c m t state) = isActiveReasoning state"
  "nodes (storeIds c m t state) = nodes state"
  "workflowId (storeIds c m t state) = workflowId state"
  "workflowRunId (storeIds c m t state) = workflowRunId state"
  "workflowStartedAt (storeIds c m t state) = workflowStartedAt state"
  "workflowFinishedAt (storeIds c m t state) = workflowFinishedAt state"
  "conversationId (storeIds c m t state) = (if str_truthy c then c else conversationId state)"
  "messageId (storeIds c m t state) = (if str_truthy m then m else messageId state)"
  "taskId (storeIds c m t state) = (if str_truthy t then t else taskId state)"
  by (simp_all add: storeIds_def Let_def)

lemma field_has_field: "field k data \<noteq> JUndefined \<Longrightarrow> has_field k data"
  by (auto simp: field_def has_field_def split: option.splits)

lemma base_typedE:
  assumes "base_typed data"
  obtains c m t a where "opt_string (field ''conversation_id'' data) = Some c"
    and "opt_string (field ''message_id'' data) = Some m"
    and "opt_string (field ''task_id'' data) = Some t"
    and "opt_number (field ''created_at'' data) = Some a"
  using assms by (auto simp: base_typed_def)

lemma event_discriminators:
  "discriminator_of ''event'' workflowStartedSchema = Some ''workflow_started''"
  "discriminator_of ''event'' workflowFinishedSchema = Some ''workflow_finished''"
  "discriminator_of ''event'' nodeStartedSchema = Some ''node_started''"
  "discriminator_of ''event'' nodeFinishedSchema = Some ''node_finished''"
  "discriminator_of ''event'' messageSchema = Some ''message''"
  "discriminator_of ''event'' messageEndSchema = Some ''message_end''"
  "discriminator_of ''event'' ttsMessageSchema = Some ''tts_message''"
  "discriminator_of ''event'' ttsMessageEndSchema = Some ''tts_message_end''"
  "discriminator_of ''event'' agentThoughtSchema = Some ''agent_thought''"
  "discriminator_of ''event'' agentMessageSchema = Some ''agent_message''"
  "discriminator_of ''event'' pingSchema = Some ''ping''"
  by (simp_all add: event_schema_defs obj_spread_def)

lemma unknown_kind_not_discriminated:
  assumes "field ''event'' kvs = JStr tag" and "tag \<notin> set known_kinds"
  shows "safeParse (ZDiscriminatedUnion ''event''
          [workflowStartedSchema, workflowFinishedSchema, nodeStartedSchema,
           nodeFinishedSchema, messageSchema, messageEndSchema, ttsMessageSchema,
           ttsMessageEndSchema, agentThoughtSchema, agentMessageSchema, pingSchema])
          (JObj kvs) = None"
proof -
  have "tag \<noteq> ''workflow_started''" "tag \<noteq> ''workflow_finished''" "tag \<noteq> ''node_started''"
    "tag \<noteq> ''node_finished''" "tag \<noteq> ''message''" "tag \<noteq> ''message_end''"
    "tag \<noteq> ''tts_message''" "tag \<noteq> ''tts_message_end''" "tag \<noteq> ''agent_thought''"
    "tag \<noteq> ''agent_message''" "tag \<noteq> ''ping''"
    using assms(2) by (simp_all add: known_kinds_def)
  then have "''workflow_started'' \<noteq> tag" "''workflow_finished'' \<noteq> tag" "''node_started'' \<noteq> tag"
    "''node_finished'' \<noteq> tag" "''message'' \<noteq> tag" "''message_end'' \<noteq> tag"
    "''tts_message'' \<noteq> tag" "''tts_message_end'' \<noteq> tag" "''agent_thought'' \<noteq> tag"
    "''agent_message'' \<noteq> tag" "''ping'' \<noteq> tag"
    by (simp_all only: not_sym)
  then show ?thesis
    using assms(1) by (simp add: event_discriminators)
qed

lemma optional_string_accepts:
  "opt_string v \<noteq> None \<Longrightarrow> safeParse (ZOptional ZString) v = Some v"
  by (cases v) auto

lemma optional_number_accepts:
  "opt_number v \<noteq> None \<Longrightarrow> safeParse (ZOptional ZNumber) v = Some v"
  by (cases v) auto

lemma base_accepts:
  assumes "is_string (field ''event'' kvs)" and "base_typed kvs"
  shows "\<exists>out. safeParse difyStreamEventBase (JObj kvs) = Some (JObj out)"
proof -
  have typed: "opt_string (field ''conversation_id'' kvs) \<noteq> None"
    "opt_string (field ''message_id'' kvs) \<noteq> None"
    "opt_string (field ''task_id'' kvs) \<noteq> None"
    "opt_number (field ''created_at'' kvs) \<noteq> None"
    using assms(2) by (simp_all add: base_typed_def)
  have "safeParse (ZOptional ZString) (field ''conversation_id'' kvs)
          = Some (field ''conversation_id'' kvs)"
    and "safeParse (ZOptional ZString) (field ''message_id'' kvs)
          = Some (field ''message_id'' kvs)"
    and "safeParse (ZOptional ZString) (field ''task_id'' kvs) = Some (field ''task_id'' kvs)"
    and "safeParse (ZOptional ZNumber) (field ''created_at'' kvs)
          = Some (field ''created_at'' kvs)"
    by (rule optional_string_accepts optional_number_accepts, rule typed)+
  then show ?thesis
    using assms(1) by (simp add: difyStreamEventBase_def del: safeParse.simps(6))
qed

lemma base_parse_same:
  assumes "t = ZString \<or> t = ZOptional ZString \<or> t = ZOptional ZNumber"
    and "safeParse t v = Some w"
  shows "w = v"
  using assms by (auto split: if_splits)

lemma absent_field: "\<not> has_field k kvs \<Longrightarrow> field k kvs = JUndefined"
  by (simp add: has_field_def field_def)

lemma base_preserves:
  assumes p: "safeParse difyStreamEventBase (JObj kvs) = Some (JObj out)"
    and n: "\<not> has_field ''__proto__'' kvs"
  shows "field k out = field k kvs" and "has_field k out = has_field k kvs"
proof -
  let ?shape = "[(''event'', ZString),
        (''conversation_id'', ZOptional ZString),
        (''message_id'', ZOptional ZString),
        (''task_id'', ZOptional ZString),
        (''created_at'', ZOptional ZNumber)]"
  have p': "safeParse (ZObject ?shape True) (JObj kvs) = Some (JObj out)"
    using p by (simp only: difyStreamEventBase_def)
  have d: "distinct (map fst ?shape)"
    by simp
  have both: "field k out = field k kvs \<and> has_field k out = has_field k kvs"
  proof (cases "map_of ?shape k")
    case None
    have "map_of out k = map_of kvs k"
    proof (cases "k = ''__proto__''")
      case True
      then show ?thesis
        using safeParse_object_proto [OF p'] n by (simp add: has_field_def)
    next
      case False
      show ?thesis
        by (rule safeParse_object_other [OF p' None False])
    qed
    then show ?thesis
      by (simp add: field_def has_field_def)
  next
    case (Some t)
    then have t: "t = ZString \<or> t = ZOptional ZString \<or> t = ZOptional ZNumber"
      by (auto split: if_splits)
    have k: "k \<noteq> ''__proto__''"
      using Some by (auto split: if_splits)
    have "safeParse t (field k kvs) = Some (field k out)"
      by (rule safeParse_object_field(1) [OF p' d Some k])
    then have same: "field k out = field k kvs"
      by (rule base_parse_same [OF t])
    have "has_field k out = (has_field k kvs \<or> field k out \<noteq> JUndefined)"
      by (rule safeParse_object_field(2) [OF p' d Some k])
    then show ?thesis
      using same absent_field [of k kvs] by auto
  qed
  show "field k out = field k kvs"
    using both by simp
  show "has_field k out = has_field k kvs"
    using both by simp
qed

lemma unknown_kind_validates:
  assumes "field ''event'' kvs = JStr tag" and "tag \<notin> set known_kinds" and "base_typed kvs"
    and "\<not> forbidden (JObj kvs)"
  shows "\<exists>data. parse_event (JObj kvs) = Success data
           \<and> safeParse difyStreamEventBase (JObj kvs) = Some (JObj data)"
proof -
  obtain out where out: "safeParse difyStreamEventBase (JObj kvs) = Some (JObj out)"
    using base_accepts [of kvs] assms(1,3) by auto
  have "safeParse difyStreamEventSchema (JObj kvs) = Some (JObj out)"
    unfolding difyStreamEventSchema_def
    using unknown_kind_not_discriminated [OF assms(1,2)] out
    by (simp del: safeParse.simps(10,11))
  then show ?thesis
    using out assms(4) by (simp add: parse_event_def)
qed

lemma default_case:
  assumes "base_typed data" and "field ''event'' data = JStr tag"
    and "tag \<notin> set known_kinds"
  shows "\<exists>state'. transform newId state (Success data) =
           Some (state', [Raw (JObj (obj_spread [(''difyEvent'', JStr tag)] data))])"
proof -
  obtain c m t a where "opt_string (field ''conversation_id'' data) = Some c"
    "opt_string (field ''message_id'' data) = Some m"
    "opt_string (field ''task_id'' data) = Some t"
    "opt_number (field ''created_at'' data) = Some a"
    using assms(1) by (rule base_typedE)
  then show ?thesis
    using assms(2,3)
    by (auto simp: transform_def case_default_def known_kinds_def)
qed

lemma get_prop_object:
  assumes "get_prop k v = JStr s"
  shows "truthy v \<and> is_object v \<and> has_key k v"
proof (cases v)
  case (JObj kvs)
  then have "field k kvs \<noteq> JUndefined"
    using assms by simp
  then have "has_field k kvs"
    by (rule field_has_field)
  then show ?thesis
    using JObj by simp
qed (use assms in simp_all)

lemma opt_number_truthy: "opt_number v = Some a \<Longrightarrow> num_truthy a = truthy v"
  by (cases v) auto

lemma literal_parsed: "safeParse (ZLiteral s) v = Some w \<Longrightarrow> w = JStr s"
  by (auto split: if_splits)

lemma string_parsed: "safeParse ZString v = Some w \<Longrightarrow> is_string w"
  by (auto split: if_splits)

lemma number_parsed: "safeParse ZNumber v = Some w \<Longrightarrow> is_number w"
  by (auto split: if_splits)

lemma object_parsed:
  assumes "safeParse (ZObject shape passthrough) v = Some w"
  obtains kvs out where "v = JObj kvs" and "w = JObj out"
  using assms by (cases v) auto

lemma nested_field:
  assumes p: "safeParse (ZObject shape passthrough) (JObj kvs) = Some (JObj out)"
    and d: "distinct (map fst shape)"
    and m: "map_of shape ''data'' = Some (ZObject inner passthrough')"
    and d': "distinct (map fst inner)"
    and m': "map_of inner k = Some t"
    and n: "k \<noteq> ''__proto__''"
  shows "data_is_object out"
    and "\<exists>v. safeParse t v = Some (get_prop k (field ''data'' out))"
proof -
  have outer: "safeParse (ZObject inner passthrough') (field ''data'' kvs)
                 = Some (field ''data'' out)"
    by (rule safeParse_object_field(1) [OF p d m]) simp
  then obtain dk dd where dk: "field ''data'' kvs = JObj dk" and dd: "field ''data'' out = JObj dd"
    by (rule object_parsed)
  show "data_is_object out"
    using dd by (simp add: data_is_object_def)
  have "safeParse (ZObject inner passthrough') (JObj dk) = Some (JObj dd)"
    using outer dk dd by simp
  then have "safeParse t (field k dk) = Some (field k dd)"
    using d' m' n by (rule safeParse_object_field(1))
  then show "\<exists>v. safeParse t v = Some (get_prop k (field ''data'' out))"
    using dd by auto
qed

lemma discriminator_shape:
  "discriminator_of disc (ZObject shape passthrough) = Some tag
     \<Longrightarrow> map_of shape disc = Some (ZLiteral tag)"
  by (auto split: option.splits schema.splits)

lemma event_literal:
  assumes p: "safeParse (ZObject shape True) raw = Some (JObj data)"
    and d: "distinct (map fst shape)"
    and tag: "discriminator_of ''event'' (ZObject shape True) = Some tag"
  shows "field ''event'' data = JStr tag"
proof -
  from p obtain kvs out where raw: "raw = JObj kvs" and "JObj data = JObj out"
    by (rule object_parsed)
  have "safeParse (ZLiteral tag) (field ''event'' kvs) = Some (field ''event'' data)"
    using safeParse_object_field(1) [OF p [unfolded raw] d discriminator_shape [OF tag]]
    by simp
  then show ?thesis
    by (rule literal_parsed)
qed

lemma nested_string:
  assumes "safeParse (ZObject shape True) (JObj kvs) = Some (JObj data)"
    and "distinct (map fst shape)"
    and "map_of shape ''data'' = Some (ZObject inner True)"
    and "distinct (map fst inner)"
    and "map_of inner k = Some ZString"
    and "k \<noteq> ''__proto__''"
  shows "is_string (get_prop k (field ''data'' data))"
proof -
  obtain v where "safeParse ZString v = Some (get_prop k (field ''data'' data))"
    using nested_field(2) [OF assms] by blast
  then show ?thesis
    by (rule string_parsed)
qed

lemma nested_number:
  assumes "safeParse (ZObject shape True) (JObj kvs) = Some (JObj data)"
    and "distinct (map fst shape)"
    and "map_of shape ''data'' = Some (ZObject inner True)"
    and "distinct (map fst inner)"
    and "map_of inner k = Some ZNumber"
    and "k \<noteq> ''__proto__''"
  shows "is_number (get_prop k (field ''data'' data))"
proof -
  obtain v where "safeParse ZNumber v = Some (get_prop k (field ''data'' data))"
    using nested_field(2) [OF assms] by blast
  then show ?thesis
    by (rule number_parsed)
qed

text \<open>
  Every event that one of the schemas of the discriminated union has validated is
  calm: the properties the translator coerces are numbers and strings there. Only an
  event let through by the fallback schema can make a coercion throw.
\<close>

lemma number_coerces: "is_number v \<Longrightarrow> \<not> coercion_throws v"
  by (cases v) (simp_all add: coercion_throws_def)

lemma string_coerces: "is_string v \<Longrightarrow> \<not> coercion_throws v"
  by (cases v) (simp_all add: coercion_throws_def)

lemma workflow_started_calm:
  assumes "safeParse workflowStartedSchema raw = Some (JObj data)"
  shows "calm data"
proof -
  let ?inner = "[(''id'', ZString), (''workflow_id'', ZString), (''created_at'', ZNumber),
                 (''inputs'', ZRecord ZAny)]"
  obtain shape where s: "workflowStartedSchema = ZObject shape True"
    and d: "distinct (map fst shape)"
    and inner: "map_of shape ''data'' = Some (ZObject ?inner True)"
    by (simp add: workflowStartedSchema_def difyStreamEventBase_def obj_spread_def)
  have q: "safeParse (ZObject shape True) raw = Some (JObj data)"
    using assms unfolding s .
  from q obtain kvs out where raw: "raw = JObj kvs" and "JObj data = JObj out"
    by (rule object_parsed)
  have p: "safeParse (ZObject shape True) (JObj kvs) = Some (JObj data)"
    using q unfolding raw .
  have ev: "field ''event'' data = JStr ''workflow_started''"
    using event_discriminators(1) unfolding s by (rule event_literal [OF q d])
  have "is_number (get_prop ''created_at'' (field ''data'' data))"
    by (rule nested_number [OF p d inner]) simp_all
  then show ?thesis
    using ev by (simp add: calm_def number_coerces)
qed

lemma workflow_finished_calm:
  assumes "safeParse workflowFinishedSchema raw = Some (JObj data)"
  shows "calm data"
proof -
  let ?inner = "[(''id'', ZString),
            (''workflow_id'', ZString),
            (''total_tokens'', ZNumber),
            (''created_at'', ZNumber),
            (''status'', ZString),
            (''outputs'', ZRecord ZAny),
            (''error'', ZString),
            (''elapsed_time'', ZNumber),
            (''total_steps'', ZNumber),
            (''created_by'', ZObject [(''id'', ZString), (''user'', ZString)] False),
            (''finished_at'', ZNumber),
            (''exceptions_count'', ZNumber),
            (''files'', ZArray ZAny)]"
  obtain shape where s: "workflowFinishedSchema = ZObject shape True"
    and d: "distinct (map fst shape)"
    and inner: "map_of shape ''data'' = Some (ZObject ?inner True)"
    by (simp add: workflowFinishedSchema_def difyStreamEventBase_def obj_spread_def)
  have q: "safeParse (ZObject shape True) raw = Some (JObj data)"
    using assms unfolding s .
  from q obtain kvs out where raw: "raw = JObj kvs" and "JObj data = JObj out"
    by (rule object_parsed)
  have p: "safeParse (ZObject shape True) (JObj kvs) = Some (JObj data)"
    using q unfolding raw .
  have ev: "field ''event'' data = JStr ''workflow_finished''"
    using event_discriminators(2) unfolding s by (rule event_literal [OF q d])
  have "is_number (get_prop ''finished_at'' (field ''data'' data))"
    by (rule nested_number [OF p d inner]) simp_all
  then show ?thesis
    using ev by (simp add: calm_def number_coerces)
qed

lemma node_started_calm:
  assumes "safeParse nodeStartedSchema raw = Some (JObj data)"
  shows "calm data"
proof -
  obtain shape inner where s: "nodeStartedSchema = ZObject shape True"
    and d: "distinct (map fst shape)"
    and inner: "map_of shape ''data'' = Some (ZObject inner True)"
    and d': "distinct (map fst inner)"
    and node: "map_of inner ''node_id'' = Some ZString"
    by (simp add: nodeStartedSchema_def difyStreamEventBase_def obj_spread_def)
  have q: "safeParse (ZObject shape True) raw = Some (JObj data)"
    using assms unfolding s .
  from q obtain kvs out where raw: "raw = JObj kvs" and "JObj data = JObj out"
    by (rule object_parsed)
  have p: "safeParse (ZObject shape True) (JObj kvs) = Some (JObj data)"
    using q unfolding raw .
  have ev: "field ''event'' data = JStr ''node_started''"
    using event_discriminators(3) unfolding s by (rule event_literal [OF q d])
  have "is_string (get_prop ''node_id'' (field ''data'' data))"
    by (rule nested_string [OF p d inner d' node]) simp
  then show ?thesis
    using ev by (simp add: calm_def string_coerces)
qed

lemma node_finished_calm:
  assumes "safeParse nodeFinishedSchema raw = Some (JObj data)"
  shows "calm data"
proof -
  obtain shape inner where s: "nodeFinishedSchema = ZObject shape True"
    and d: "distinct (map fst shape)"
    and inner: "map_of shape ''data'' = Some (ZObject inner True)"
    and d': "distinct (map fst inner)"
    and node: "map_of inner ''node_id'' = Some ZString"
    by (simp add: nodeFinishedSchema_def difyStreamEventBase_def obj_spread_def)
  have q: "safeParse (ZObject shape True) raw = Some (JObj data)"
    using assms unfolding s .
  from q obtain kvs out where raw: "raw = JObj kvs" and "JObj data = JObj out"
    by (rule object_parsed)
  have p: "safeParse (ZObject shape True) (JObj kvs) = Some (JObj data)"
    using q unfolding raw .
  have ev: "field ''event'' data = JStr ''node_finished''"
    using event_discriminators(4) unfolding s by (rule event_literal [OF q d])
  have "is_string (get_prop ''node_id'' (field ''data'' data))"
    by (rule nested_string [OF p d inner d' node]) simp
  then show ?thesis
    using ev by (simp add: calm_def string_coerces)
qed

lemma other_schema_calm:
  assumes t: "t \<in> set [messageSchema, messageEndSchema, ttsMessageSchema,
                        ttsMessageEndSchema, agentThoughtSchema, agentMessageSchema, pingSchema]"
    and p: "safeParse t raw = Some (JObj data)"
  shows "calm data"
proof -
  obtain shape where s: "t = ZObject shape True" and c: "common_shape shape"
    using known_shapes [of t] t by auto
  have d: "distinct (map fst shape)"
    using c by (simp add: common_shape_def)
  obtain tag where tag: "discriminator_of ''event'' t = Some tag"
    and other: "tag \<noteq> ''workflow_started''" "tag \<noteq> ''workflow_finished''"
      "tag \<noteq> ''node_started''" "tag \<noteq> ''node_finished''"
    using t by (auto simp: event_discriminators)
  have "field ''event'' data = JStr tag"
    using p tag unfolding s by (rule event_literal [OF _ d])
  then show ?thesis
    using other by (simp add: calm_def)
qed

lemma known_event_calm:
  assumes "safeParse (ZDiscriminatedUnion ''event''
          [workflowStartedSchema, workflowFinishedSchema, nodeStartedSchema,
           nodeFinishedSchema, messageSchema, messageEndSchema, ttsMessageSchema,
           ttsMessageEndSchema, agentThoughtSchema, agentMessageSchema, pingSchema]) raw
          = Some (JObj data)"
  shows "calm data"
proof -
  obtain t where t: "t \<in> set [workflowStartedSchema, workflowFinishedSchema, nodeStartedSchema,
           nodeFinishedSchema, messageSchema, messageEndSchema, ttsMessageSchema,
           ttsMessageEndSchema, agentThoughtSchema, agentMessageSchema, pingSchema]"
    and p: "safeParse t raw = Some (JObj data)"
    using assms by (blast dest: safeParse_discriminatedUnion)
  then consider "t = workflowStartedSchema" | "t = workflowFinishedSchema"
    | "t = nodeStartedSchema" | "t = nodeFinishedSchema"
    | "t \<in> set [messageSchema, messageEndSchema, ttsMessageSchema,
                        ttsMessageEndSchema, agentThoughtSchema, agentMessageSchema, pingSchema]"
    by auto
  then show ?thesis
    using p
    by cases (auto intro: workflow_started_calm workflow_finished_calm node_started_calm
        node_finished_calm other_schema_calm)
qed

lemma known_event_translatable:
  assumes "parse_event raw = Success data"
    and "safeParse (ZDiscriminatedUnion ''event''
          [workflowStartedSchema, workflowFinishedSchema, nodeStartedSchema,
           nodeFinishedSchema, messageSchema, messageEndSchema, ttsMessageSchema,
           ttsMessageEndSchema, agentThoughtSchema, agentMessageSchema, pingSchema]) raw
          \<noteq> None"
  shows "translatable (Success data)"
proof -
  obtain v where v: "safeParse (ZDiscriminatedUnion ''event''
          [workflowStartedSchema, workflowFinishedSchema, nodeStartedSchema,
           nodeFinishedSchema, messageSchema, messageEndSchema, ttsMessageSchema,
           ttsMessageEndSchema, agentThoughtSchema, agentMessageSchema, pingSchema]) raw
          = Some v"
    using assms(2) by blast
  have "safeParse difyStreamEventSchema raw = Some (JObj data)"
    using assms(1) by (rule parse_event_Success(1))
  then have "v = JObj data"
    unfolding difyStreamEventSchema_def using v
    by (simp del: safeParse.simps(10,11))
  then have "calm data"
    using v by (simp only: known_event_calm)
  moreover have "base_typed data"
    using assms(1) by (rule parse_event_typed)
  ultimately show ?thesis
    by (simp add: translatable_def)
qed

section \<open>The cases of the translator\<close>

lemma same_ids_refl [simp]: "same_ids state state"
  by (simp add: same_ids_def)

lemma splitter_passthrough:
  assumes "parseContentWithThinking newId s state = (state', parts)"
  shows "same_ids state state' \<and> list_all is_passthrough parts"
  using assms
  by (auto simp: parseContentWithThinking_def same_ids_def Let_def split: if_splits)

lemma workflow_started_passthrough:
  assumes "case_workflow_started data state = Some (state', parts)"
  shows "same_ids state state' \<and> list_all is_passthrough parts"
  using assms
  by (auto simp: case_workflow_started_def same_ids_def Let_def bind_eq_Some_conv
      split: if_splits)

lemma node_started_passthrough:
  assumes "case_node_started a data state = Some (state', parts)"
  shows "same_ids state state' \<and> list_all is_passthrough parts"
  using assms
  by (auto simp: case_node_started_def same_ids_def Let_def bind_eq_Some_conv
      split: if_splits)

lemma node_finished_passthrough:
  assumes "case_node_finished a data state = Some (state', parts)"
  shows "same_ids state state' \<and> list_all is_passthrough parts"
proof (cases "data_is_object data \<and> has_key ''node_id'' (field ''data'' data) \<and> num_truthy a")
  case True
  then obtain nid where nid: "to_string (get_prop ''node_id'' (field ''data'' data)) = Some nid"
    using assms by (auto simp: case_node_finished_def Let_def bind_eq_Some_conv)
  show ?thesis
  proof (cases "Map_get (get_prop ''node_id'' (field ''data'' data)) (nodes state)")
    case None
    then show ?thesis
      using assms True nid by (auto simp: case_node_finished_def Let_def same_ids_def)
  next
    case (Some node)
    then show ?thesis
      using assms True nid by (auto simp: case_node_finished_def Let_def same_ids_def)
  qed
next
  case False
  then show ?thesis
    using assms by (auto simp: case_node_finished_def Let_def same_ids_def)
qed

lemma agent_thought_passthrough:
  assumes "case_agent_thought a data state = Some (state', parts)"
  shows "same_ids state state' \<and> list_all is_passthrough parts"
  using assms
  by (auto simp: case_agent_thought_def same_ids_def split: if_splits)

lemma message_passthrough:
  assumes "case_message newId a data state = Some (state', parts)"
  shows "same_ids state state' \<and> list_all is_passthrough parts"
proof (cases "\<exists>answer. field ''answer'' data = JStr answer \<and> has_field ''answer'' data")
  case True
  then obtain answer where answer: "field ''answer'' data = JStr answer"
    "has_field ''answer'' data"
    by blast
  obtain st ps where split: "parseContentWithThinking newId answer state = (st, ps)"
    by (cases "parseContentWithThinking newId answer state")
  have "same_ids state st \<and> list_all is_passthrough ps"
    using split by (rule splitter_passthrough)
  then show ?thesis
    using assms answer split
    by (auto simp: case_message_def split: if_splits)
next
  case False
  then show ?thesis
    using assms
    by (auto simp: case_message_def split: jsvalue.splits if_splits)
qed

lemma default_passthrough:
  assumes "case_default data state = Some (state', parts)"
  shows "same_ids state state' \<and> list_all is_passthrough parts"
  using assms
  by (auto simp: case_default_def)

lemma message_end_parts:
  assumes "case_message_end data state = Some (state', parts)"
  shows "same_ids state state'
         \<and> (\<exists>pre fin. parts = pre @ [fin] \<and> list_all is_passthrough pre
                       \<and> finish_with state fin)"
  using assms
  by (auto simp: case_message_end_def same_ids_def Let_def bind_eq_Some_conv split: if_splits)

lemma workflow_finished_parts:
  assumes "case_workflow_finished data state = Some (state', parts)"
  shows "same_ids state state'
         \<and> (\<exists>pre fin. parts = pre @ [fin] \<and> list_all is_passthrough pre
                       \<and> finish_with state fin)"
proof (cases "data_is_object data \<and> has_key ''finished_at'' (field ''data'' data)")
  case True
  then obtain f where "new_Date (get_prop ''finished_at'' (field ''data'' data)) = Some f"
    using assms by (auto simp: case_workflow_finished_def Let_def bind_eq_Some_conv)
  then show ?thesis
    using assms True
    by (auto simp: case_workflow_finished_def Let_def same_ids_def bind_eq_Some_conv)
next
  case False
  then show ?thesis
    using assms
    by (auto simp: case_workflow_finished_def Let_def same_ids_def bind_eq_Some_conv)
qed

lemma passthrough_counts:
  assumes "list_all is_passthrough parts"
  shows "filter is_finish parts = []" and "filter is_error parts = []"
proof -
  have "is_passthrough p \<Longrightarrow> \<not> is_finish p \<and> \<not> is_error p" for p
    by (cases p) simp_all
  then show "filter is_finish parts = []" and "filter is_error parts = []"
    using assms by (auto simp: list_all_iff filter_empty_conv)
qed

lemma finish_with_counts:
  assumes "finish_with state fin"
  shows "is_finish fin" and "\<not> is_error fin"
  using assms by (cases fin; simp)+

lemma stored_id_read:
  assumes "opt_string (field k data) = Some v"
  shows "(if str_truthy v then v else old) = stored_id k (Success data) old"
  using assms by (cases "field k data") (auto simp: stored_id_def)

lemma transform_success:
  assumes "transform newId state (Success data) = Some (state', parts)"
  obtains c m t a where "opt_string (field ''conversation_id'' data) = Some c"
    and "opt_string (field ''message_id'' data) = Some m"
    and "opt_string (field ''task_id'' data) = Some t"
    and "opt_number (field ''created_at'' data) = Some a"
  using assms by (auto simp: transform_def bind_eq_Some_conv)

lemma storeIds_stored:
  assumes "opt_string (field ''conversation_id'' data) = Some c"
    and "opt_string (field ''message_id'' data) = Some m"
    and "opt_string (field ''task_id'' data) = Some t"
  shows "conversationId (storeIds c m t state)
           = stored_id ''conversation_id'' (Success data) (conversationId state)"
    and "messageId (storeIds c m t state)
           = stored_id ''message_id'' (Success data) (messageId state)"
    and "taskId (storeIds c m t state)
           = stored_id ''task_id'' (Success data) (taskId state)"
  using assms by (simp_all add: stored_id_read)

lemma transform_step:
  assumes "transform newId state chunk = Some (state', parts)"
  shows "conversationId state' = stored_id ''conversation_id'' chunk (conversationId state)
         \<and> messageId state' = stored_id ''message_id'' chunk (messageId state)
         \<and> taskId state' = stored_id ''task_id'' chunk (taskId state)
         \<and> ((list_all is_passthrough parts
              \<and> \<not> has_event ''message_end'' chunk \<and> \<not> has_event ''workflow_finished'' chunk
              \<and> \<not> is_failure chunk)
             \<or> (\<exists>e. parts = [ErrorPart e] \<and> is_failure chunk)
             \<or> (\<exists>pre fin. parts = pre @ [fin] \<and> list_all is_passthrough pre
                    \<and> finish_with state' fin \<and> \<not> is_failure chunk
                    \<and> (has_event ''message_end'' chunk \<or> has_event ''workflow_finished'' chunk)
                    \<and> \<not> (has_event ''message_end'' chunk \<and> has_event ''workflow_finished'' chunk)))"
proof (cases chunk)
  case (Failure e)
  then show ?thesis
    using assms by (auto simp: transform_def stored_id_def)
next
  case (Success data)
  obtain c m t a where ids: "opt_string (field ''conversation_id'' data) = Some c"
    "opt_string (field ''message_id'' data) = Some m"
    "opt_string (field ''task_id'' data) = Some t"
    and a: "opt_number (field ''created_at'' data) = Some a"
    using assms Success by (auto elim: transform_success)
  let ?state1 = "storeIds c m t state"
  let ?ev = "field ''event'' data"
  have stored: "conversationId ?state1
           = stored_id ''conversation_id'' chunk (conversationId state)"
    "messageId ?state1 = stored_id ''message_id'' chunk (messageId state)"
    "taskId ?state1 = stored_id ''task_id'' chunk (taskId state)"
    using storeIds_stored [OF ids] Success by simp_all
  consider (ws) "?ev = JStr ''workflow_started''"
    | (wf) "?ev = JStr ''workflow_finished''"
    | (ns) "?ev = JStr ''node_started''"
    | (nf) "?ev = JStr ''node_finished''"
    | (at) "?ev = JStr ''agent_thought''"
    | (msg) "?ev = JStr ''message'' \<or> ?ev = JStr ''agent_message''"
    | (me) "?ev = JStr ''message_end''"
    | (other) "?ev \<noteq> JStr ''workflow_started''" "?ev \<noteq> JStr ''workflow_finished''"
        "?ev \<noteq> JStr ''node_started''" "?ev \<noteq> JStr ''node_finished''"
        "?ev \<noteq> JStr ''agent_thought''" "?ev \<noteq> JStr ''message''"
        "?ev \<noteq> JStr ''agent_message''" "?ev \<noteq> JStr ''message_end''"
    by blast
  then show ?thesis
  proof cases
    case ws
    then have "case_workflow_started data ?state1 = Some (state', parts)"
      using assms Success ids a by (simp add: transform_def)
    then have "same_ids ?state1 state' \<and> list_all is_passthrough parts"
      by (rule workflow_started_passthrough)
    then show ?thesis
      using stored ws Success by (simp add: same_ids_def)
  next
    case wf
    then have "case_workflow_finished data ?state1 = Some (state', parts)"
      using assms Success ids a by (simp add: transform_def)
    then have "same_ids ?state1 state'
         \<and> (\<exists>pre fin. parts = pre @ [fin] \<and> list_all is_passthrough pre
                       \<and> finish_with ?state1 fin)"
      by (rule workflow_finished_parts)
    moreover have "finish_with ?state1 fin = finish_with state' fin"
      if "same_ids ?state1 state'" for fin
      using that by (cases fin) (simp_all add: same_ids_def)
    ultimately show ?thesis
      using stored wf Success by (auto simp: same_ids_def)
  next
    case ns
    then have "case_node_started a data ?state1 = Some (state', parts)"
      using assms Success ids a by (simp add: transform_def)
    then have "same_ids ?state1 state' \<and> list_all is_passthrough parts"
      by (rule node_started_passthrough)
    then show ?thesis
      using stored ns Success by (simp add: same_ids_def)
  next
    case nf
    then have "case_node_finished a data ?state1 = Some (state', parts)"
      using assms Success ids a by (simp add: transform_def)
    then have "same_ids ?state1 state' \<and> list_all is_passthrough parts"
      by (rule node_finished_passthrough)
    then show ?thesis
      using stored nf Success by (simp add: same_ids_def)
  next
    case at
    then have "case_agent_thought a data ?state1 = Some (state', parts)"
      using assms Success ids a by (simp add: transform_def)
    then have "same_ids ?state1 state' \<and> list_all is_passthrough parts"
      by (rule agent_thought_passthrough)
    then show ?thesis
      using stored at Success by (simp add: same_ids_def)
  next
    case msg
    then have "case_message newId a data ?state1 = Some (state', parts)"
      using assms Success ids a by (auto simp: transform_def)
    then have "same_ids ?state1 state' \<and> list_all is_passthrough parts"
      by (rule message_passthrough)
    then show ?thesis
      using stored msg Success by (auto simp: same_ids_def)
  next
    case me
    then have "case_message_end data ?state1 = Some (state', parts)"
      using assms Success ids a by (simp add: transform_def)
    then have "same_ids ?state1 state'
         \<and> (\<exists>pre fin. parts = pre @ [fin] \<and> list_all is_passthrough pre
                       \<and> finish_with ?state1 fin)"
      by (rule message_end_parts)
    moreover have "finish_with ?state1 fin = finish_with state' fin"
      if "same_ids ?state1 state'" for fin
      using that by (cases fin) (simp_all add: same_ids_def)
    ultimately show ?thesis
      using stored me Success by (auto simp: same_ids_def)
  next
    case other
    then have "case_default data ?state1 = Some (state', parts)"
      using assms Success ids a by (simp add: transform_def)
    then have "same_ids ?state1 state' \<and> list_all is_passthrough parts"
      by (rule default_passthrough)
    then show ?thesis
      using stored other Success by (simp add: same_ids_def)
  qed
qed

lemma pipeThrough_Cons:
  assumes "pipeThrough gen n state (c # cs) = Some (state', out)"
  obtains state1 ps qs where "transform (gen n) state c = Some (state1, ps)"
    and "pipeThrough gen (Suc n) state1 cs = Some (state', qs)"
    and "out = ps @ qs"
  using assms by (auto split: option.splits prod.splits)

lemma last_id_snoc:
  "last_id k (cs @ [c]) = (case chunk_id k c of Some x \<Rightarrow> Some x | None \<Rightarrow> last_id k cs)"
  by (induction cs) (auto split: option.splits)

lemma failure_no_event: "is_failure chunk \<Longrightarrow> \<not> has_event tag chunk"
  by (cases chunk) simp_all

lemma last_id_Cons_stored:
  "(case last_id k cs of Some x \<Rightarrow> Some x | None \<Rightarrow> stored_id k c old)
     = (case last_id k (c # cs) of Some x \<Rightarrow> Some x | None \<Rightarrow> old)"
  by (auto simp: stored_id_def split: option.splits)

lemma pipeThrough_ids:
  assumes "pipeThrough gen n state chunks = Some (state', out)"
  shows "conversationId state'
           = (case last_id ''conversation_id'' chunks of
                Some x \<Rightarrow> Some x | None \<Rightarrow> conversationId state)
         \<and> messageId state'
           = (case last_id ''message_id'' chunks of
                Some x \<Rightarrow> Some x | None \<Rightarrow> messageId state)
         \<and> taskId state'
           = (case last_id ''task_id'' chunks of
                Some x \<Rightarrow> Some x | None \<Rightarrow> taskId state)"
  using assms
proof (induction chunks arbitrary: n state out)
  case Nil
  then show ?case by simp
next
  case (Cons c cs)
  obtain state1 ps qs where step: "transform (gen n) state c = Some (state1, ps)"
    and rest: "pipeThrough gen (Suc n) state1 cs = Some (state', qs)"
    using Cons.prems by (rule pipeThrough_Cons)
  have ids1: "conversationId state1 = stored_id ''conversation_id'' c (conversationId state)"
    "messageId state1 = stored_id ''message_id'' c (messageId state)"
    "taskId state1 = stored_id ''task_id'' c (taskId state)"
    using transform_step [OF step] by simp_all
  show ?case
    using Cons.IH [OF rest] ids1 by (simp only: last_id_Cons_stored) 
qed

lemma step_counts:
  assumes "transform newId state chunk = Some (state', parts)"
    and "\<not> has_event ''workflow_finished'' chunk"
  shows "length (filter is_finish parts) = (if has_event ''message_end'' chunk then 1 else 0)"
    and "length (filter is_error parts) = (if is_failure chunk then 1 else 0)"
    and "has_event ''message_end'' chunk \<Longrightarrow> parts \<noteq> [] \<and> is_finish (last parts)"
  using transform_step [OF assms(1)] assms(2)
  by (auto simp: passthrough_counts finish_with_counts dest: failure_no_event)

text \<open>
  The translator throws only in a coercion: on a calm event, from a state whose
  workflow timestamps coerce, every case returns, and the timestamps it stores coerce
  again.
\<close>

lemma splitter_workflow:
  assumes "parseContentWithThinking newId s state = (state', parts)"
  shows "calm_state state' = calm_state state"
  using assms
  by (auto simp: parseContentWithThinking_def calm_state_def Let_def split: if_splits)

lemma calm_state_storeIds [simp]: "calm_state (storeIds c m t state) = calm_state state"
  by (simp add: calm_state_def)

lemma js_minus_defined:
  assumes "\<not> coercion_throws a" and "\<not> coercion_throws b"
  shows "\<exists>d. js_minus a b = Some d"
  using assms by (simp add: js_minus_def split: jsvalue.splits)

lemma new_Date_defined:
  assumes "\<not> coercion_throws v"
  shows "\<exists>t. new_Date v = Some t"
  using assms by (simp add: new_Date_def split: jsvalue.splits)

lemma report_defined:
  assumes "calm_state state"
  shows "\<exists>report. executionReport_workflow_finished state = Some report"
    and "\<exists>report. executionReport_message_end state = Some report"
proof -
  obtain d where "js_minus (workflowFinishedAt state) (workflowStartedAt state) = Some d"
    using assms js_minus_defined by (auto simp: calm_state_def)
  then show "\<exists>report. executionReport_workflow_finished state = Some report"
    and "\<exists>report. executionReport_message_end state = Some report"
    by (simp_all add: executionReport_workflow_finished_def executionReport_message_end_def)
qed

lemma workflow_started_defined:
  assumes "\<not> coercion_throws (get_prop ''created_at'' (field ''data'' data))"
    and "calm_state state"
  shows "\<exists>state' parts. case_workflow_started data state = Some (state', parts)
           \<and> calm_state state'"
proof -
  obtain t where "new_Date (get_prop ''created_at'' (field ''data'' data)) = Some t"
    using assms(1) new_Date_defined by blast
  then show ?thesis
    using assms by (simp add: case_workflow_started_def Let_def calm_state_def)
qed

lemma workflow_finished_defined:
  assumes "\<not> coercion_throws (get_prop ''finished_at'' (field ''data'' data))"
    and "calm_state state"
  shows "\<exists>state' parts. case_workflow_finished data state = Some (state', parts)
           \<and> calm_state state'"
proof -
  let ?f = "get_prop ''finished_at'' (field ''data'' data)"
  obtain t where t: "new_Date ?f = Some t"
    using assms(1) new_Date_defined by blast
  show ?thesis
  proof (cases "data_is_object data \<and> has_key ''finished_at'' (field ''data'' data)")
    case True
    have "calm_state (state\<lparr>workflowFinishedAt := ?f\<rparr>)"
      using assms by (simp add: calm_state_def)
    moreover from this obtain r where
      "executionReport_workflow_finished (state\<lparr>workflowFinishedAt := ?f\<rparr>) = Some r"
      using report_defined(1) by blast
    ultimately show ?thesis
      using True t by (simp add: case_workflow_finished_def Let_def)
  next
    case False
    obtain r where "executionReport_workflow_finished state = Some r"
      using assms(2) report_defined(1) by blast
    then show ?thesis
      using False assms(2) by (auto simp: case_workflow_finished_def Let_def)
  qed
qed

lemma node_started_defined:
  assumes "has_key ''node_type'' (field ''data'' data) \<and> num_truthy a
             \<longrightarrow> \<not> coercion_throws (get_prop ''node_id'' (field ''data'' data))"
    and "calm_state state"
  shows "\<exists>state' parts. case_node_started a data state = Some (state', parts)
           \<and> calm_state state'"
proof (cases "data_is_object data \<and> has_key ''node_id'' (field ''data'' data)
                \<and> has_key ''node_type'' (field ''data'' data) \<and> num_truthy a")
  case True
  then obtain i where "to_string (get_prop ''node_id'' (field ''data'' data)) = Some i"
    using assms(1) by (auto simp: coercion_throws_def)
  then show ?thesis
    using assms(2) True by (simp add: case_node_started_def Let_def calm_state_def)
next
  case False
  then show ?thesis
    using assms(2) by (auto simp: case_node_started_def Let_def)
qed

lemma node_finished_defined:
  assumes "num_truthy a \<longrightarrow> \<not> coercion_throws (get_prop ''node_id'' (field ''data'' data))"
    and "calm_state state"
  shows "\<exists>state' parts. case_node_finished a data state = Some (state', parts)
           \<and> calm_state state'"
proof (cases "data_is_object data \<and> has_key ''node_id'' (field ''data'' data) \<and> num_truthy a")
  case True
  then obtain i where "to_string (get_prop ''node_id'' (field ''data'' data)) = Some i"
    using assms(1) by (auto simp: coercion_throws_def)
  then show ?thesis
    using assms(2) True
    by (simp add: case_node_finished_def Let_def calm_state_def split: option.splits)
next
  case False
  then show ?thesis
    using assms(2) by (auto simp: case_node_finished_def Let_def)
qed

lemma message_defined:
  assumes "calm_state state"
  shows "\<exists>state' parts. case_message newId a data state = Some (state', parts)
           \<and> calm_state state'"
proof (cases "\<exists>answer. field ''answer'' data = JStr answer \<and> has_field ''answer'' data")
  case True
  then obtain answer where answer: "field ''answer'' data = JStr answer"
    "has_field ''answer'' data"
    by blast
  obtain st ps where split: "parseContentWithThinking newId answer state = (st, ps)"
    by (cases "parseContentWithThinking newId answer state")
  have "calm_state st"
    using splitter_workflow [OF split] assms by simp
  then show ?thesis
    using answer split by (simp add: case_message_def)
next
  case False
  then show ?thesis
    using assms by (auto simp: case_message_def split: jsvalue.splits)
qed

lemma message_end_defined:
  assumes "calm_state state"
  shows "\<exists>state' parts. case_message_end data state = Some (state', parts)
           \<and> calm_state state'"
proof -
  let ?state1 = "if isActiveText state then state\<lparr>isActiveText := False\<rparr> else state"
  have calm: "calm_state ?state1"
    using assms by (simp add: calm_state_def)
  then obtain r where "executionReport_message_end ?state1 = Some r"
    using report_defined(2) by blast
  then show ?thesis
    using calm by (simp add: case_message_end_def Let_def)
qed

lemma transform_defined:
  assumes "translatable chunk" and "calm_state state"
  shows "\<exists>state' parts. transform newId state chunk = Some (state', parts)
           \<and> calm_state state'"
proof (cases chunk)
  case (Failure e)
  then show ?thesis
    using assms(2) by (simp add: transform_def)
next
  case (Success data)
  then have typed: "base_typed data" and calm: "calm data"
    using assms(1) by (simp_all add: translatable_def)
  obtain c m t a where ids: "opt_string (field ''conversation_id'' data) = Some c"
    "opt_string (field ''message_id'' data) = Some m"
    "opt_string (field ''task_id'' data) = Some t"
    and a: "opt_number (field ''created_at'' data) = Some a"
    using typed by (rule base_typedE)
  note tr = opt_number_truthy [OF a]
  let ?state1 = "storeIds c m t state"
  let ?ev = "field ''event'' data"
  have state1: "calm_state ?state1"
    using assms(2) by simp
  consider (ws) "?ev = JStr ''workflow_started''"
    | (wf) "?ev = JStr ''workflow_finished''"
    | (ns) "?ev = JStr ''node_started''"
    | (nf) "?ev = JStr ''node_finished''"
    | (at) "?ev = JStr ''agent_thought''"
    | (msg) "?ev = JStr ''message'' \<or> ?ev = JStr ''agent_message''"
    | (me) "?ev = JStr ''message_end''"
    | (other) "?ev \<noteq> JStr ''workflow_started''" "?ev \<noteq> JStr ''workflow_finished''"
        "?ev \<noteq> JStr ''node_started''" "?ev \<noteq> JStr ''node_finished''"
        "?ev \<noteq> JStr ''agent_thought''" "?ev \<noteq> JStr ''message''"
        "?ev \<noteq> JStr ''agent_message''" "?ev \<noteq> JStr ''message_end''"
    by blast
  then show ?thesis
  proof cases
    case ws
    then have "\<not> coercion_throws (get_prop ''created_at'' (field ''data'' data))"
      using calm by (simp add: calm_def)
    then show ?thesis
      using workflow_started_defined [OF _ state1, of data] ws Success ids a
      by (simp add: transform_def)
  next
    case wf
    then have "\<not> coercion_throws (get_prop ''finished_at'' (field ''data'' data))"
      using calm by (simp add: calm_def)
    then show ?thesis
      using workflow_finished_defined [OF _ state1, of data] wf Success ids a
      by (simp add: transform_def)
  next
    case ns
    then have "has_key ''node_type'' (field ''data'' data) \<and> num_truthy a
                 \<longrightarrow> \<not> coercion_throws (get_prop ''node_id'' (field ''data'' data))"
      using calm tr by (simp add: calm_def Let_def)
    then show ?thesis
      using node_started_defined [OF _ state1, where data = data and a = a] ns Success ids a
      by (simp add: transform_def)
  next
    case nf
    then have "num_truthy a
                 \<longrightarrow> \<not> coercion_throws (get_prop ''node_id'' (field ''data'' data))"
      using calm tr by (simp add: calm_def Let_def)
    then show ?thesis
      using node_finished_defined [OF _ state1, where data = data and a = a] nf Success ids a
      by (simp add: transform_def)
  next
    case at
    then show ?thesis
      using state1 Success ids a by (simp add: transform_def case_agent_thought_def)
  next
    case msg
    then show ?thesis
      using message_defined [OF state1, of newId a data] Success ids a
      by (auto simp: transform_def)
  next
    case me
    then show ?thesis
      using message_end_defined [OF state1, of data] Success ids a
      by (simp add: transform_def)
  next
    case other
    then show ?thesis
      using state1 Success ids a by (simp add: transform_def case_default_def)
  qed
qed

lemma coercion_throws_present:
  assumes "coercion_throws (get_prop k v)"
  shows "truthy v \<and> is_object v \<and> has_key k v"
proof (cases v)
  case (JObj kvs)
  then have "field k kvs \<noteq> JUndefined"
    using assms by (auto simp: coercion_throws_def)
  then have "has_field k kvs"
    by (rule field_has_field)
  then show ?thesis
    using JObj by simp
qed (use assms in \<open>simp_all add: coercion_throws_def\<close>)

lemma new_Date_throws: "coercion_throws v \<Longrightarrow> new_Date v = None"
  by (cases v) (simp_all add: new_Date_def coercion_throws_def)

lemma transform_throws:
  assumes "base_typed data" and "calm_state state"
  shows "(transform newId state (Success data) = None) = (\<not> calm data)"
proof (cases "calm data")
  case True
  then have "translatable (Success data)"
    using assms(1) by (simp add: translatable_def)
  then show ?thesis
    using transform_defined [OF _ assms(2), of "Success data" newId] True by auto
next
  case False
  obtain c m t a where ids: "opt_string (field ''conversation_id'' data) = Some c"
    "opt_string (field ''message_id'' data) = Some m"
    "opt_string (field ''task_id'' data) = Some t"
    and a: "opt_number (field ''created_at'' data) = Some a"
    using assms(1) by (rule base_typedE)
  note tr = opt_number_truthy [OF a]
  let ?d = "field ''data'' data"
  let ?ev = "field ''event'' data"
  consider (ws) "?ev = JStr ''workflow_started''" "coercion_throws (get_prop ''created_at'' ?d)"
    | (wf) "?ev = JStr ''workflow_finished''" "coercion_throws (get_prop ''finished_at'' ?d)"
    | (ns) "?ev = JStr ''node_started''" "has_key ''node_type'' ?d" "num_truthy a"
        "coercion_throws (get_prop ''node_id'' ?d)"
    | (nf) "?ev = JStr ''node_finished''" "num_truthy a"
        "coercion_throws (get_prop ''node_id'' ?d)"
    using False tr by (auto simp: calm_def Let_def)
  then have "transform newId state (Success data) = None"
  proof cases
    case ws
    then show ?thesis
      using ids a coercion_throws_present [OF ws(2)] new_Date_throws [OF ws(2)]
      by (simp add: transform_def case_workflow_started_def data_is_object_def Let_def)
  next
    case wf
    then show ?thesis
      using ids a coercion_throws_present [OF wf(2)] new_Date_throws [OF wf(2)]
      by (simp add: transform_def case_workflow_finished_def data_is_object_def Let_def)
  next
    case ns
    then show ?thesis
      using ids a coercion_throws_present [OF ns(4)]
      by (simp add: transform_def case_node_started_def data_is_object_def Let_def
          coercion_throws_def)
  next
    case nf
    then show ?thesis
      using ids a coercion_throws_present [OF nf(3)]
      by (simp add: transform_def case_node_finished_def data_is_object_def Let_def
          coercion_throws_def)
  qed
  then show ?thesis
    using False by simp
qed

lemma pipeThrough_defined:
  assumes "\<forall>c\<in>set chunks. translatable c" and "calm_state state"
  shows "\<exists>state' out. pipeThrough gen n state chunks = Some (state', out)
           \<and> calm_state state'"
  using assms
proof (induction chunks arbitrary: n state)
  case Nil
  then show ?case by simp
next
  case (Cons c cs)
  obtain state1 ps where step: "transform (gen n) state c = Some (state1, ps)"
    and calm: "calm_state state1"
    using transform_defined [of c state "gen n"] Cons.prems by auto
  obtain state' qs where "pipeThrough gen (Suc n) state1 cs = Some (state', qs)"
    and "calm_state state'"
    using Cons.IH [of state1 "Suc n"] Cons.prems(1) calm by auto
  then show ?case
    using step by simp
qed

lemma calm_initial_state: "calm_state initial_state"
  by (simp add: calm_state_def initial_state_def coercion_throws_def)

text \<open>
  A node event whose node id is an object with a \<^verbatim>\<open>toString\<close> property of its
  own passes the fallback schema, and the template literal of the case throws on it.
\<close>

lemma template_literal_throws:
  "transform [] initial_state
     (parse_event (JObj [(''event'', JStr ''node_started''), (''created_at'', JNum 3),
                         (''data'', JObj [(''node_id'', JObj [(''toString'', JNum 1)]),
                                          (''node_type'', JStr ''llm'')])])) = None"
  by code_simp

text \<open>
  An element with a \<^verbatim>\<open>__proto__\<close> property is refused by the decoder, whatever
  its other properties, and becomes an error part.
\<close>

lemma forbidden_property_refused:
  "transform [] initial_state
     (parse_event (JObj [(''event'', JStr ''foo_bar''), (''__proto__'', JObj [])])) =
   Some (initial_state,
         [ErrorPart (ForbiddenProperty
                       (JObj [(''event'', JStr ''foo_bar''), (''__proto__'', JObj [])]))])"
  by code_simp

text \<open>The report a terminal case attaches to its finish part.\<close>

lemma message_end_report:
  assumes "executionReport_message_end state = Some report"
  shows "\<exists>state' parts. case_message_end data state = Some (state', parts)
           \<and> parts \<noteq> [] \<and> report_of (last parts) = Some report"
proof -
  have "executionReport_message_end (state\<lparr>isActiveText := False\<rparr>)
          = executionReport_message_end state"
    by (simp add: executionReport_message_end_def)
  then show ?thesis
    using assms by (simp add: case_message_end_def Let_def)
qed

lemma workflow_finished_report:
  assumes "\<not> coercion_throws (get_prop ''finished_at'' (field ''data'' data))"
    and "executionReport_workflow_finished
           (if data_is_object data \<and> has_key ''finished_at'' (field ''data'' data)
            then state\<lparr>workflowFinishedAt := get_prop ''finished_at'' (field ''data'' data)\<rparr>
            else state) = Some report"
  shows "\<exists>parts. case_workflow_finished data state =
             Some (if data_is_object data \<and> has_key ''finished_at'' (field ''data'' data)
                   then state\<lparr>workflowFinishedAt := get_prop ''finished_at'' (field ''data'' data)\<rparr>
                   else state, parts)
           \<and> parts \<noteq> [] \<and> report_of (last parts) = Some report"
proof -
  obtain t where t: "new_Date (get_prop ''finished_at'' (field ''data'' data)) = Some t"
    using assms(1) new_Date_defined by blast
  show ?thesis
  proof (cases "data_is_object data \<and> has_key ''finished_at'' (field ''data'' data)")
    case True
    then show ?thesis
      using assms(2) t by (simp add: case_workflow_finished_def Let_def)
  next
    case False
    then show ?thesis
      using assms(2) by (auto simp: case_workflow_finished_def Let_def)
  qed
qed

lemma message_end_throws:
  assumes "executionReport_message_end state = None"
  shows "case_message_end data state = None"
proof -
  have "executionReport_message_end (state\<lparr>isActiveText := False\<rparr>)
          = executionReport_message_end state"
    by (simp add: executionReport_message_end_def)
  then show ?thesis
    using assms by (simp add: case_message_end_def Let_def)
qed

lemma workflow_finished_throws:
  assumes "executionReport_workflow_finished
           (if data_is_object data \<and> has_key ''finished_at'' (field ''data'' data)
            then state\<lparr>workflowFinishedAt := get_prop ''finished_at'' (field ''data'' data)\<rparr>
            else state) = None"
  shows "case_workflow_finished data state = None"
proof (cases "data_is_object data \<and> has_key ''finished_at'' (field ''data'' data)")
  case True
  then show ?thesis
    using assms
    by (cases "new_Date (get_prop ''finished_at'' (field ''data'' data))")
      (simp_all add: case_workflow_finished_def Let_def)
next
  case False
  then show ?thesis
    using assms by (auto simp: case_workflow_finished_def Let_def)
qed

text \<open>The terminal parts of a stream that the translator has run through.\<close>

lemma pipeThrough_terminal_parts:
  assumes "pipeThrough gen n state chunks = Some (state', out)"
    and "\<forall>c\<in>set chunks. \<not> has_event ''workflow_finished'' c"
  shows "length (filter is_finish out) = length (filter (has_event ''message_end'') chunks)
         \<and> length (filter is_error out) = length (filter is_failure chunks)
         \<and> (chunks \<noteq> [] \<and> has_event ''message_end'' (last chunks)
              \<longrightarrow> out \<noteq> [] \<and> is_finish (last out))"
  using assms
proof (induction chunks arbitrary: n state out)
  case Nil
  then show ?case by simp
next
  case (Cons c cs)
  obtain state1 ps qs where step: "transform (gen n) state c = Some (state1, ps)"
    and rest: "pipeThrough gen (Suc n) state1 cs = Some (state', qs)"
    and out: "out = ps @ qs"
    using Cons.prems(1) by (rule pipeThrough_Cons)
  have c: "\<not> has_event ''workflow_finished'' c"
    and cs: "\<forall>c\<in>set cs. \<not> has_event ''workflow_finished'' c"
    using Cons.prems(2) by simp_all
  have later: "length (filter is_finish qs) = length (filter (has_event ''message_end'') cs)
         \<and> length (filter is_error qs) = length (filter is_failure cs)
         \<and> (cs \<noteq> [] \<and> has_event ''message_end'' (last cs)
              \<longrightarrow> qs \<noteq> [] \<and> is_finish (last qs))"
    using rest cs by (rule Cons.IH)
  have counts: "length (filter is_finish out)
                  = length (filter (has_event ''message_end'') (c # cs))"
    "length (filter is_error out) = length (filter is_failure (c # cs))"
    using later step_counts(1,2) [OF step c] out by simp_all
  have ending: "out \<noteq> [] \<and> is_finish (last out)"
    if last: "has_event ''message_end'' (last (c # cs))"
  proof (cases "cs = []")
    case True
    then have "qs = []"
      using rest by simp
    then show ?thesis
      using step_counts(3) [OF step c] last True out by simp
  next
    case False
    then have "qs \<noteq> [] \<and> is_finish (last qs)"
      using later last by simp
    then show ?thesis
      using out by simp
  qed
  show ?case
    using counts ending by simp
qed

lemma finish_part_ids:
  assumes "pipeThrough gen 0 initial_state pre = Some (state, out)"
    and "transform newId state c = Some (state', parts)"
    and "Finish reason counters md \<in> set parts"
  shows "md_conversationId md = last_id ''conversation_id'' (pre @ [c])
         \<and> md_messageId md = last_id ''message_id'' (pre @ [c])
         \<and> md_taskId md = last_id ''task_id'' (pre @ [c])"
proof -
  have before: "conversationId state = last_id ''conversation_id'' pre"
    "messageId state = last_id ''message_id'' pre"
    "taskId state = last_id ''task_id'' pre"
    using pipeThrough_ids [OF assms(1)]
    by (simp_all add: initial_state_def split: option.splits)
  have step: "conversationId state' = last_id ''conversation_id'' (pre @ [c])"
    "messageId state' = last_id ''message_id'' (pre @ [c])"
    "taskId state' = last_id ''task_id'' (pre @ [c])"
    using transform_step [OF assms(2)] before
    by (simp_all add: last_id_snoc stored_id_def)
  have "finish_with state' (Finish reason counters md)"
  proof -
    have "\<not> is_passthrough (Finish reason counters md)"
      by simp
    then have not_pass: "\<not> list_all is_passthrough parts"
      using assms(3) unfolding list_all_iff by blast
    from transform_step [OF assms(2)] not_pass assms(3)
    obtain front fin where parts: "parts = front @ [fin]"
      and front: "list_all is_passthrough front" and fin: "finish_with state' fin"
      by auto
    have "Finish reason counters md \<notin> set front"
      using front by (auto simp: list_all_iff)
    then have "fin = Finish reason counters md"
      using assms(3) parts by simp
    then show ?thesis
      using fin by simp
  qed
  then show ?thesis
    using step by simp
qed

section \<open>Request construction\<close>

lemma list_ex_file_part:
  "list_ex is_file_part parts = (\<exists>text. ObjectPart (Some ''file'') text \<in> set parts)"
proof (induction parts)
  case Nil
  then show ?case by simp
next
  case (Cons p parts)
  have "is_file_part p = (\<exists>text. p = ObjectPart (Some ''file'') text)"
    by (cases p rule: is_file_part.cases) auto
  then show ?case
    using Cons.IH by auto
qed

lemma hasAttachments_iff: "hasAttachments m = has_file_part m"
  by (simp add: hasAttachments_def has_file_part_def list_ex_file_part
      split: message_content.splits)

lemma getRequestBody_cases:
  "getRequestBody endpoint settings options =
     (if message_list options = [] then
        Inl (APICallError ''No messages provided'' endpoint (OptionsValues options))
      else if role (last (message_list options)) \<noteq> ''user'' then
        Inl (APICallError ''The last message must be a user message'' endpoint
               (LatestMessageRole (role (last (message_list options)))))
      else if has_file_part (last (message_list options)) then
        Inl (APICallError ''Dify provider does not currently support file attachments''
               endpoint (HasAttachments True))
      else
        Inr (\<lparr>inputs = (case settings_inputs settings of
                          Some i \<Rightarrow> if truthy i then i else JObj []
                        | None \<Rightarrow> JObj []),
              query = query_of (last (message_list options)),
              response_mode = settings_responseMode settings,
              conversation_id =
                map_of (case headers options of Some h \<Rightarrow> h | None \<Rightarrow> []) ''chat-id'',
              user = (case map_of (case headers options of Some h \<Rightarrow> h | None \<Rightarrow> [])
                               ''user-id'' of
                        Some u \<Rightarrow> u | None \<Rightarrow> ''you_should_pass_user-id'')\<rparr>,
             options\<lparr>headers :=
               Some (filter (\<lambda>(k, v). k \<noteq> ''chat-id'' \<and> k \<noteq> ''user-id'')
                       (case headers options of Some h \<Rightarrow> h | None \<Rightarrow> []))\<rparr>))"
proof (cases "message_list options")
  case Nil
  then show ?thesis
    by (auto simp: getRequestBody_def message_list_def split: option.splits)
next
  case (Cons m ms)
  then have msgs: "(case prompt options of Some p \<Rightarrow> Some p | None \<Rightarrow> messages options)
      = Some (m # ms)"
    by (auto simp: message_list_def split: option.splits)
  show ?thesis
    unfolding getRequestBody_def msgs Cons
    by (simp add: hasAttachments_iff Let_def)
qed

lemmas splitter_eval =
  parseContentWithThinking_def str_includes_def indexOf_def substring_def split.simps
  at_index_def

section \<open>The claims\<close>

subsection \<open>Terminal parts\<close>

text \<open>
  Claim C1, as amended. The transform keeps no record that a terminal part was
  enqueued: every element is translated, also after a finish or an error part. A
  failed element gives exactly one error part and a \<^verbatim>\<open>message_end\<close> event exactly
  one finish part, the last part of that event. So a stream of failed elements and
  validated events that has no \<^verbatim>\<open>workflow_finished\<close> event, and none of whose
  events makes the translator throw, is translated to the end, with as many finish
  parts as \<^verbatim>\<open>message_end\<close> events and as many error parts as failed elements;
  and when it ends with a \<^verbatim>\<open>message_end\<close> event, its translation ends with a
  finish part. The translator throws on an event exactly when one of its coercions
  does: on an object with a \<^verbatim>\<open>toString\<close> property of its own, or an array
  holding one, as \<^verbatim>\<open>data.created_at\<close> of a \<^verbatim>\<open>workflow_started\<close> event,
  \<^verbatim>\<open>data.finished_at\<close> of a \<^verbatim>\<open>workflow_finished\<close> event, or
  \<^verbatim>\<open>data.node_id\<close> of a node event behind the guard of its case. Any other
  value may stand where the source only asserts a type.
\<close>

theorem terminal_parts_count:
  assumes "\<forall>c\<in>set chunks. translatable c \<and> \<not> has_event ''workflow_finished'' c"
  shows "\<exists>state' out.
           pipeThrough gen 0 initial_state chunks = Some (state', out)
           \<and> length (filter is_finish out) = length (filter (has_event ''message_end'') chunks)
           \<and> length (filter is_error out) = length (filter is_failure chunks)
           \<and> (chunks \<noteq> [] \<and> has_event ''message_end'' (last chunks)
                \<longrightarrow> out \<noteq> [] \<and> is_finish (last out))"
proof -
  have "\<forall>c\<in>set chunks. translatable c"
    using assms by simp
  then obtain state' out where run: "pipeThrough gen 0 initial_state chunks = Some (state', out)"
    using pipeThrough_defined [of chunks initial_state gen 0] calm_initial_state by blast
  have "\<forall>c\<in>set chunks. \<not> has_event ''workflow_finished'' c"
    using assms by simp
  then have "length (filter is_finish out) = length (filter (has_event ''message_end'') chunks)
         \<and> length (filter is_error out) = length (filter is_failure chunks)
         \<and> (chunks \<noteq> [] \<and> has_event ''message_end'' (last chunks)
              \<longrightarrow> out \<noteq> [] \<and> is_finish (last out))"
    by (rule pipeThrough_terminal_parts [OF run])
  then show ?thesis
    using run by blast
qed

text \<open>
  One failed element and two \<^verbatim>\<open>message_end\<close> events: a finish part follows the
  error part, and a second finish part follows the first.
\<close>

theorem terminal_parts_counterexample:
  "map_option snd
     (pipeThrough (\<lambda>n. []) 0 initial_state
        [Failure (JSONParseError ''x''),
         Success [(''event'', JStr ''message_end'')],
         Success [(''event'', JStr ''message_end'')]]) =
   Some [ErrorPart (JSONParseError ''x''),
         Finish Stop
           \<lparr>inputTokens = JUndefined, outputTokens = JNum 0, totalTokens = JUndefined\<rparr>
           \<lparr>md_conversationId = None, md_messageId = None, md_taskId = None,
            md_workflowExecution = None\<rparr>,
         Finish Stop
           \<lparr>inputTokens = JUndefined, outputTokens = JNum 0, totalTokens = JUndefined\<rparr>
           \<lparr>md_conversationId = None, md_messageId = None, md_taskId = None,
            md_workflowExecution = None\<rparr>]"
  by code_simp

theorem terminal_parts_count_witness:
  "\<exists>state' out.
     pipeThrough (\<lambda>n. []) 0 initial_state
       [Success [(''event'', JStr ''workflow_started''), (''workflow_run_id'', JNum 5),
                 (''data'', JObj [(''workflow_id'', JStr ''w''), (''created_at'', JNum 2)])],
        Success [(''event'', JStr ''message''), (''answer'', JStr ''hi'')],
        Failure (JSONParseError ''x''),
        Success [(''event'', JStr ''message_end'')]] = Some (state', out)
     \<and> length (filter is_finish out) = 1
     \<and> length (filter is_error out) = 1
     \<and> out \<noteq> [] \<and> is_finish (last out)"
proof -
  let ?chunks = "[Success [(''event'', JStr ''workflow_started''), (''workflow_run_id'', JNum 5),
                           (''data'', JObj [(''workflow_id'', JStr ''w''),
                                            (''created_at'', JNum 2)])],
                  Success [(''event'', JStr ''message''), (''answer'', JStr ''hi'')],
                  Failure (JSONParseError ''x''),
                  Success [(''event'', JStr ''message_end'')]]"
  have receivable: "\<forall>c\<in>set ?chunks. translatable c \<and> \<not> has_event ''workflow_finished'' c"
    by (simp add: translatable_def base_typed_def calm_def field_def coercion_throws_def)
  have counts: "length (filter (has_event ''message_end'') ?chunks) = 1"
    "length (filter is_failure ?chunks) = 1"
    "has_event ''message_end'' (last ?chunks)"
    by (simp_all add: field_def)
  show ?thesis
    using terminal_parts_count [OF receivable, of "\<lambda>n. []"] counts by simp
qed

subsection \<open>The identifiers of a finish part\<close>

text \<open>
  Claim C2, as amended. The conversation, message and task id of a finish part are
  the last non-empty \<^verbatim>\<open>conversation_id\<close>, \<^verbatim>\<open>message_id\<close> and \<^verbatim>\<open>task_id\<close>
  among the elements of the stream up to and including the event that gave the
  finish part, whatever the kinds of the events that carried them: a later non-empty
  value replaces the stored one, an empty or absent value does not. This holds of
  every stream of failed elements and validated events none of which makes the
  translator throw (that is, makes one of its coercions throw, which only an object
  with a \<^verbatim>\<open>toString\<close> property of its own does, or an array holding one); such
  a stream is translated to the end, and a \<^verbatim>\<open>message_end\<close> event in it gives a
  finish part.
\<close>

theorem finish_ids_are_latest:
  assumes "\<forall>x\<in>set (pre @ [c]). translatable x"
  shows "\<exists>state out state' parts.
           pipeThrough gen 0 initial_state pre = Some (state, out)
           \<and> transform newId state c = Some (state', parts)
           \<and> (\<forall>reason counters md. Finish reason counters md \<in> set parts \<longrightarrow>
                  md_conversationId md = last_id ''conversation_id'' (pre @ [c])
                  \<and> md_messageId md = last_id ''message_id'' (pre @ [c])
                  \<and> md_taskId md = last_id ''task_id'' (pre @ [c]))
           \<and> (has_event ''message_end'' c \<longrightarrow> parts \<noteq> [] \<and> is_finish (last parts))"
proof -
  have pre: "\<forall>x\<in>set pre. translatable x" and c: "translatable c"
    using assms by simp_all
  obtain state out where run: "pipeThrough gen 0 initial_state pre = Some (state, out)"
    and calm: "calm_state state"
    using pipeThrough_defined [OF pre calm_initial_state] by blast
  obtain state' parts where step: "transform newId state c = Some (state', parts)"
    using transform_defined [OF c calm] by blast
  have "md_conversationId md = last_id ''conversation_id'' (pre @ [c])
        \<and> md_messageId md = last_id ''message_id'' (pre @ [c])
        \<and> md_taskId md = last_id ''task_id'' (pre @ [c])"
    if "Finish reason counters md \<in> set parts" for reason counters md
    using run step that by (rule finish_part_ids)
  moreover have "parts \<noteq> [] \<and> is_finish (last parts)" if "has_event ''message_end'' c"
    using transform_step [OF step] that
    by (auto simp: passthrough_counts finish_with_counts list_all_iff
        dest: failure_no_event)
  ultimately show ?thesis
    using run step by blast
qed

text \<open>
  A \<^verbatim>\<open>message\<close> event with conversation id a, then a \<^verbatim>\<open>message_end\<close> event
  with conversation id b: the finish part carries b, the first non-empty id is a.
\<close>

theorem finish_ids_counterexample:
  "map_option snd
     (pipeThrough (\<lambda>n. []) 0 initial_state
        [Success [(''event'', JStr ''message''), (''conversation_id'', JStr ''a''),
                  (''answer'', JStr ''hi'')],
         Success [(''event'', JStr ''message_end''), (''conversation_id'', JStr ''b'')]]) =
   Some [TextStart ''answer'', TextDelta ''answer'' ''hi'', TextEnd ''answer'',
         Finish Stop
           \<lparr>inputTokens = JUndefined, outputTokens = JNum 0, totalTokens = JUndefined\<rparr>
           \<lparr>md_conversationId = Some ''b'', md_messageId = None, md_taskId = None,
            md_workflowExecution = None\<rparr>]
   \<and> first_id ''conversation_id''
        [Success [(''event'', JStr ''message''), (''conversation_id'', JStr ''a''),
                  (''answer'', JStr ''hi'')],
         Success [(''event'', JStr ''message_end''), (''conversation_id'', JStr ''b'')]]
      = Some ''a''"
  by code_simp

theorem finish_ids_are_latest_witness:
  "\<exists>state out state' reason counters md.
     pipeThrough (\<lambda>n. []) 0 initial_state
       [Success [(''event'', JStr ''workflow_started''), (''workflow_run_id'', JNum 5),
                 (''conversation_id'', JStr ''a''), (''message_id'', JStr ''m''),
                 (''data'', JObj [(''workflow_id'', JNum 7), (''created_at'', JStr ''soon'')])]]
       = Some (state, out)
     \<and> transform [] state
           (Success [(''event'', JStr ''message_end''), (''conversation_id'', JStr ''b''),
                     (''message_id'', JStr [])])
         = Some (state', [Finish reason counters md])
     \<and> md_conversationId md = Some ''b''
     \<and> md_messageId md = Some ''m''
     \<and> md_taskId md = None"
proof -
  let ?pre = "[Success [(''event'', JStr ''workflow_started''), (''workflow_run_id'', JNum 5),
                 (''conversation_id'', JStr ''a''), (''message_id'', JStr ''m''),
                 (''data'', JObj [(''workflow_id'', JNum 7), (''created_at'', JStr ''soon'')])]]"
  let ?c = "Success [(''event'', JStr ''message_end''), (''conversation_id'', JStr ''b''),
                     (''message_id'', JStr [])]"
  have receivable: "\<forall>x\<in>set (?pre @ [?c]). translatable x"
    by (simp add: translatable_def base_typed_def calm_def field_def coercion_throws_def)
  let ?state = "initial_state\<lparr>conversationId := Some ''a'', messageId := Some ''m'',
                         workflowId := JNum 7, workflowRunId := JNum 5,
                         workflowStartedAt := JStr ''soon''\<rparr>"
  have run0: "map_option fst (pipeThrough (\<lambda>n. []) 0 initial_state ?pre) = Some ?state"
    by code_simp
  have step0: "map_option (map report_of \<circ> snd) (transform [] ?state ?c)
      = Some [Some (Some \<lparr>report_workflowId = JNum 7, report_workflowRunId = JNum 5,
                           report_startedAt = JStr ''soon'', report_finishedAt = JUndefined,
                           report_duration = None, report_nodes = []\<rparr>)]"
    by code_simp
  obtain state out state' parts where run: "pipeThrough (\<lambda>n. []) 0 initial_state ?pre = Some (state, out)"
    and step: "transform [] state ?c = Some (state', parts)"
    and ids: "\<forall>reason counters md. Finish reason counters md \<in> set parts \<longrightarrow>
                  md_conversationId md = last_id ''conversation_id'' (?pre @ [?c])
                  \<and> md_messageId md = last_id ''message_id'' (?pre @ [?c])
                  \<and> md_taskId md = last_id ''task_id'' (?pre @ [?c])"
    using finish_ids_are_latest [OF receivable, of "\<lambda>n. []" "[]"] by blast
  have state: "state = ?state"
    using run run0 by simp
  then obtain part where "parts = [part]" and "report_of part \<noteq> None"
    using step step0 by auto
  then obtain reason counters md where parts: "parts = [Finish reason counters md]"
    by (cases part) simp_all
  have "last_id ''conversation_id'' (?pre @ [?c]) = Some ''b''"
    "last_id ''message_id'' (?pre @ [?c]) = Some ''m''"
    "last_id ''task_id'' (?pre @ [?c]) = None"
    by (simp_all add: field_def)
  then have "md_conversationId md = Some ''b'' \<and> md_messageId md = Some ''m''
             \<and> md_taskId md = None"
    using ids parts by simp
  then show ?thesis
    using run step parts by blast
qed

subsection \<open>The splitter on concrete fragments\<close>

text \<open>
  Claim C3. From the initial state, the fragments \<^verbatim>\<open><think>\nfoo\<close> and
  \<^verbatim>\<open>bar\n</think>baz\<close>, in this order, give exactly the parts reasoning-start,
  reasoning-delta foo, reasoning-delta bar, reasoning-end, text-start, text-delta baz.
  The reasoning parts carry the id generated for the first fragment, the text parts
  the id \<^verbatim>\<open>answer\<close>; afterwards the reasoning block is closed and the answer
  channel is open.
\<close>

theorem think_fragments_parts:
  "parse_fragments gen 0 initial_state [''<think>\<newline>foo'', ''bar\<newline></think>baz''] =
     (initial_state\<lparr>isInThinking := False, reasoningId := gen 0,
                    isActiveReasoning := False, isActiveText := True\<rparr>,
      [ReasoningStart (gen 0), ReasoningDelta (gen 0) ''foo'', ReasoningDelta (gen 0) ''bar'',
       ReasoningEnd (gen 0), TextStart ''answer'', TextDelta ''answer'' ''baz''])"
  by (simp add: splitter_eval initial_state_def)

text \<open>
  Claim C4, on the code as it is. The answer fragment hi opens the answer channel;
  a reasoning block then opens and is closed by a fragment with text after the end
  marker. The end-marker branch enqueues a second text-start although the channel is
  already open: unlike the branch for plain text, it does not test
  \<^verbatim>\<open>isActiveText\<close>.
\<close>

theorem end_marker_reopens_answer_channel:
  "parse_fragments gen 0 initial_state
          [''hi'', ''<think>\<newline>foo'', ''bar\<newline></think>baz''] =
     (initial_state\<lparr>isInThinking := False, reasoningId := gen 1,
                    isActiveReasoning := False, isActiveText := True\<rparr>,
      [TextStart ''answer'', TextDelta ''answer'' ''hi'',
       ReasoningStart (gen 1), ReasoningDelta (gen 1) ''foo'', ReasoningDelta (gen 1) ''bar'',
       ReasoningEnd (gen 1), TextStart ''answer'', TextDelta ''answer'' ''baz''])"
  by (simp add: splitter_eval initial_state_def)

subsection \<open>Request construction and the blocking response\<close>

text \<open>
  Claim C5. \<^verbatim>\<open>getRequestBody\<close> throws exactly when the message list is empty or
  absent, or the role of the last message is not user, or the last message has a
  part of type file. The error tells the three reasons apart by its message and its
  request values. It is thrown before the network call: \<^verbatim>\<open>doGenerate\<close> and
  \<^verbatim>\<open>doStream\<close> fail with the same error whatever the network would answer. For
  any other request the construction returns a body.
\<close>

theorem request_construction_errors:
  "isl (getRequestBody endpoint settings options) = construction_fails options
   \<and> (case getRequestBody endpoint settings options of
         Inl e \<Rightarrow>
           e = (if message_list options = [] then
                  APICallError ''No messages provided'' endpoint (OptionsValues options)
                else if role (last (message_list options)) \<noteq> ''user'' then
                  APICallError ''The last message must be a user message'' endpoint
                    (LatestMessageRole (role (last (message_list options))))
                else
                  APICallError ''Dify provider does not currently support file attachments''
                    endpoint (HasAttachments True))
           \<and> doGenerate endpoint settings postJsonToApi now options = Inl e
           \<and> doStream endpoint settings postStream gen options = Inl e
       | Inr r \<Rightarrow> \<not> construction_fails options)"
  by (simp add: getRequestBody_cases construction_fails_def doGenerate_def doStream_def)

theorem request_construction_errors_witness:
  "getRequestBody ''https://api.dify.ai/v1/chat-messages''
     \<lparr>settings_inputs = None, settings_responseMode = Some ''streaming''\<rparr>
     \<lparr>prompt = Some [\<lparr>role = ''user'', content = PartsContent [ObjectPart (Some ''text'') (Some ''hi'')]\<rparr>,
                     \<lparr>role = ''assistant'', content = PartsContent []\<rparr>],
      messages = None, headers = None\<rparr>
   = Inl (APICallError ''The last message must be a user message''
            ''https://api.dify.ai/v1/chat-messages'' (LatestMessageRole ''assistant''))"
proof -
  let ?options = "\<lparr>prompt = Some [\<lparr>role = ''user'', content = PartsContent [ObjectPart (Some ''text'') (Some ''hi'')]\<rparr>,
                     \<lparr>role = ''assistant'', content = PartsContent []\<rparr>],
      messages = None, headers = None\<rparr>"
  have fails: "construction_fails ?options"
    by (simp add: construction_fails_def message_list_def)
  have reason: "message_list ?options \<noteq> []"
    "role (last (message_list ?options)) = ''assistant''"
    by (simp_all add: message_list_def)
  let ?result = "getRequestBody ''https://api.dify.ai/v1/chat-messages''
     \<lparr>settings_inputs = None, settings_responseMode = Some ''streaming''\<rparr> ?options"
  have errors: "case ?result of
         Inl e \<Rightarrow>
           e = (if message_list ?options = [] then
                  APICallError ''No messages provided'' ''https://api.dify.ai/v1/chat-messages''
                    (OptionsValues ?options)
                else if role (last (message_list ?options)) \<noteq> ''user'' then
                  APICallError ''The last message must be a user message''
                    ''https://api.dify.ai/v1/chat-messages''
                    (LatestMessageRole (role (last (message_list ?options))))
                else
                  APICallError ''Dify provider does not currently support file attachments''
                    ''https://api.dify.ai/v1/chat-messages'' (HasAttachments True))
           \<and> doGenerate ''https://api.dify.ai/v1/chat-messages''
                 \<lparr>settings_inputs = None, settings_responseMode = Some ''streaming''\<rparr>
                 postJsonToApi now ?options = Inl e
           \<and> doStream ''https://api.dify.ai/v1/chat-messages''
                 \<lparr>settings_inputs = None, settings_responseMode = Some ''streaming''\<rparr>
                 postStream gen ?options = Inl e
       | Inr r \<Rightarrow> \<not> construction_fails ?options"
    for postJsonToApi now postStream gen
    by (rule conjunct2 [OF request_construction_errors])
  show ?thesis
  proof (cases ?result)
    case (Inl e)
    then show ?thesis
      using errors reason by simp
  next
    case (Inr r)
    then show ?thesis
      using errors fails by simp
  qed
qed

text \<open>
  Claim C8. When the request is constructed and the network call returns a validated
  response, \<^verbatim>\<open>doGenerate\<close> returns a result whose content is empty for an empty
  answer and is one text block with the answer otherwise, whose finish reason is
  stop, whose usage counters are the three counters of the response, and whose
  provider metadata has the conversation and message id of the response.
\<close>

theorem blocking_response_mapping:
  assumes "getRequestBody endpoint settings options = Inr (body, options1)"
    and "postJsonToApi (headers options1) body = Inr (responseHeaders, typedData)"
  shows "\<exists>r. doGenerate endpoint settings postJsonToApi now options = Inr r
           \<and> result_content r =
               (if cr_answer typedData = [] then [] else [TextBlock (cr_answer typedData)])
           \<and> result_finishReason r = Stop
           \<and> result_usage r =
               \<lparr>inputTokens = JNum (cr_prompt_tokens typedData),
                outputTokens = JNum (cr_completion_tokens typedData),
                totalTokens = JNum (cr_total_tokens typedData)\<rparr>
           \<and> result_conversationId r = cr_conversation_id typedData
           \<and> result_messageId r = cr_message_id typedData"
  using assms by (simp add: doGenerate_def)

theorem blocking_response_mapping_witness:
  "\<exists>r. doGenerate ''u'' \<lparr>settings_inputs = None, settings_responseMode = Some ''blocking''\<rparr>
          (\<lambda>hs body. Inr ([],
             \<lparr>cr_id = ''i'', cr_answer = [], cr_task_id = ''t'', cr_conversation_id = ''c'',
              cr_message_id = ''m'', cr_completion_tokens = 2, cr_prompt_tokens = 3,
              cr_total_tokens = 5\<rparr>))
          0
          \<lparr>prompt = Some [\<lparr>role = ''user'', content = TextContent ''hi''\<rparr>],
           messages = None, headers = None\<rparr> = Inr r
       \<and> result_content r = []
       \<and> result_finishReason r = Stop
       \<and> result_usage r =
           \<lparr>inputTokens = JNum 3, outputTokens = JNum 2, totalTokens = JNum 5\<rparr>
       \<and> result_conversationId r = ''c''
       \<and> result_messageId r = ''m''"
proof -
  have body: "getRequestBody ''u''
        \<lparr>settings_inputs = None, settings_responseMode = Some ''blocking''\<rparr>
        \<lparr>prompt = Some [\<lparr>role = ''user'', content = TextContent ''hi''\<rparr>],
         messages = None, headers = None\<rparr>
      = Inr (\<lparr>inputs = JObj [], query = ''hi'', response_mode = Some ''blocking'',
              conversation_id = None, user = ''you_should_pass_user-id''\<rparr>,
             \<lparr>prompt = Some [\<lparr>role = ''user'', content = TextContent ''hi''\<rparr>],
              messages = None, headers = Some []\<rparr>)"
    by (simp add: getRequestBody_def hasAttachments_def query_of_def)
  have post: "(\<lambda>hs body. Inr ([],
             \<lparr>cr_id = ''i'', cr_answer = [], cr_task_id = ''t'', cr_conversation_id = ''c'',
              cr_message_id = ''m'', cr_completion_tokens = 2, cr_prompt_tokens = 3,
              cr_total_tokens = 5\<rparr>))
          (headers \<lparr>prompt = Some [\<lparr>role = ''user'', content = TextContent ''hi''\<rparr>],
              messages = None, headers = Some []\<rparr>)
          \<lparr>inputs = JObj [], query = ''hi'', response_mode = Some ''blocking'',
              conversation_id = None, user = ''you_should_pass_user-id''\<rparr>
      = (Inr ([],
             \<lparr>cr_id = ''i'', cr_answer = [], cr_task_id = ''t'', cr_conversation_id = ''c'',
              cr_message_id = ''m'', cr_completion_tokens = 2, cr_prompt_tokens = 3,
              cr_total_tokens = 5\<rparr>)
         :: api_call_error + ((string \<times> string) list \<times> completion_response))"
    by simp
  show ?thesis
    using blocking_response_mapping [OF body post, of 0] by simp
qed

subsection \<open>The execution report\<close>

text \<open>
  Claim C9. The \<^verbatim>\<open>workflow_finished\<close> case and the \<^verbatim>\<open>message_end\<close> case
  compute the execution report by the same function of the state, and each attaches
  the report it computes to its finish part: the \<^verbatim>\<open>workflow_finished\<close> case
  after it stored the \<^verbatim>\<open>finished_at\<close> of its event, so its report is that of
  the state it leaves, and the \<^verbatim>\<open>message_end\<close> case the report of the state it
  is entered with. For the same state the two reports are therefore identical.
  There is a report exactly when the workflow id is set and truthy; it has the
  workflow id, the run id and the two timestamps of the state, a workflow duration
  only when both timestamps are present, then their difference (and always when
  both are numbers other than 0), and one node per node of the ledger, in its order
  and with its fields, whose duration is defined only when its two timestamps are
  present, then their difference. This holds of every state and event: the
  computation throws only on a state on whose timestamps the subtraction throws,
  which none of the declared type is, and then the case throws with it, as the
  \<^verbatim>\<open>workflow_finished\<close> case does on a \<^verbatim>\<open>finished_at\<close> whose coercion throws.
\<close>

theorem reports_agree:
  "executionReport_workflow_finished = executionReport_message_end
   \<and> (case executionReport_message_end state of
         None \<Rightarrow> \<not> calm_state state \<and> case_message_end ended state = None
       | Some report \<Rightarrow>
           (\<exists>state2 parts2.
               case_message_end ended state = Some (state2, parts2)
               \<and> parts2 \<noteq> [] \<and> report_of (last parts2) = Some report)
           \<and> (case report of
                  None \<Rightarrow> \<not> truthy (workflowId state)
                | Some r \<Rightarrow>
                    truthy (workflowId state)
                    \<and> report_workflowId r = workflowId state
                    \<and> report_workflowRunId r = workflowRunId state
                    \<and> report_startedAt r = workflowStartedAt state
                    \<and> report_finishedAt r = workflowFinishedAt state
                    \<and> (\<forall>d. report_duration r = Some d \<longrightarrow>
                           workflowStartedAt state \<noteq> JUndefined
                           \<and> workflowFinishedAt state \<noteq> JUndefined
                           \<and> js_minus (workflowFinishedAt state) (workflowStartedAt state)
                               = Some d)
                    \<and> (\<forall>s f. workflowStartedAt state = JNum s
                              \<and> workflowFinishedAt state = JNum f \<and> s \<noteq> 0 \<and> f \<noteq> 0
                            \<longrightarrow> report_duration r = Some (Number (f - s)))
                    \<and> map node_info.truncate (report_nodes r) = map snd (nodes state)
                    \<and> (\<forall>n\<in>set (report_nodes r).
                          (\<forall>d. duration n = Some d \<longrightarrow>
                             (\<exists>s f. startedAt n = Some s \<and> finishedAt n = Some f
                                    \<and> d = f - s))
                          \<and> (\<forall>s f. startedAt n = Some s \<and> finishedAt n = Some f
                                    \<and> s \<noteq> 0 \<and> f \<noteq> 0
                                \<longrightarrow> duration n = Some (f - s)))))
   \<and> (if coercion_throws (get_prop ''finished_at'' (field ''data'' finished))
      then case_workflow_finished finished state = None
      else
        (let state1 =
           (if data_is_object finished \<and> has_key ''finished_at'' (field ''data'' finished)
             then state\<lparr>workflowFinishedAt := get_prop ''finished_at'' (field ''data'' finished)\<rparr>
             else state)
         in case executionReport_workflow_finished state1 of
              None \<Rightarrow> \<not> calm_state state1 \<and> case_workflow_finished finished state = None
            | Some report1 \<Rightarrow>
                \<exists>parts1. case_workflow_finished finished state = Some (state1, parts1)
                         \<and> parts1 \<noteq> [] \<and> report_of (last parts1) = Some report1))"
proof -
  let ?state1 = "(if data_is_object finished \<and> has_key ''finished_at'' (field ''data'' finished)
          then state\<lparr>workflowFinishedAt := get_prop ''finished_at'' (field ''data'' finished)\<rparr>
          else state)"
  have same: "executionReport_workflow_finished = executionReport_message_end"
    by (rule ext) (simp add: executionReport_workflow_finished_def executionReport_message_end_def)
  have ended: "(case executionReport_message_end state of
         None \<Rightarrow> \<not> calm_state state \<and> case_message_end ended state = None
       | Some report \<Rightarrow>
           (\<exists>state2 parts2.
               case_message_end ended state = Some (state2, parts2)
               \<and> parts2 \<noteq> [] \<and> report_of (last parts2) = Some report)
           \<and> (case report of
                  None \<Rightarrow> \<not> truthy (workflowId state)
                | Some r \<Rightarrow>
                    truthy (workflowId state)
                    \<and> report_workflowId r = workflowId state
                    \<and> report_workflowRunId r = workflowRunId state
                    \<and> report_startedAt r = workflowStartedAt state
                    \<and> report_finishedAt r = workflowFinishedAt state
                    \<and> (\<forall>d. report_duration r = Some d \<longrightarrow>
                           workflowStartedAt state \<noteq> JUndefined
                           \<and> workflowFinishedAt state \<noteq> JUndefined
                           \<and> js_minus (workflowFinishedAt state) (workflowStartedAt state)
                               = Some d)
                    \<and> (\<forall>s f. workflowStartedAt state = JNum s
                              \<and> workflowFinishedAt state = JNum f \<and> s \<noteq> 0 \<and> f \<noteq> 0
                            \<longrightarrow> report_duration r = Some (Number (f - s)))
                    \<and> map node_info.truncate (report_nodes r) = map snd (nodes state)
                    \<and> (\<forall>n\<in>set (report_nodes r).
                          (\<forall>d. duration n = Some d \<longrightarrow>
                             (\<exists>s f. startedAt n = Some s \<and> finishedAt n = Some f
                                    \<and> d = f - s))
                          \<and> (\<forall>s f. startedAt n = Some s \<and> finishedAt n = Some f
                                    \<and> s \<noteq> 0 \<and> f \<noteq> 0
                                \<longrightarrow> duration n = Some (f - s)))))"
  proof (cases "executionReport_message_end state")
    case None
    then have "\<not> calm_state state"
      using report_defined(2) [of state] by auto
    moreover have "case_message_end ended state = None"
      using None by (rule message_end_throws)
    ultimately show ?thesis
      using None by simp
  next
    case (Some report)
    have handler: "\<exists>state2 parts2.
               case_message_end ended state = Some (state2, parts2)
               \<and> parts2 \<noteq> [] \<and> report_of (last parts2) = Some report"
      using Some by (rule message_end_report)
    have "(case report of
                  None \<Rightarrow> \<not> truthy (workflowId state)
                | Some r \<Rightarrow>
                    truthy (workflowId state)
                    \<and> report_workflowId r = workflowId state
                    \<and> report_workflowRunId r = workflowRunId state
                    \<and> report_startedAt r = workflowStartedAt state
                    \<and> report_finishedAt r = workflowFinishedAt state
                    \<and> (\<forall>d. report_duration r = Some d \<longrightarrow>
                           workflowStartedAt state \<noteq> JUndefined
                           \<and> workflowFinishedAt state \<noteq> JUndefined
                           \<and> js_minus (workflowFinishedAt state) (workflowStartedAt state)
                               = Some d)
                    \<and> (\<forall>s f. workflowStartedAt state = JNum s
                              \<and> workflowFinishedAt state = JNum f \<and> s \<noteq> 0 \<and> f \<noteq> 0
                            \<longrightarrow> report_duration r = Some (Number (f - s)))
                    \<and> map node_info.truncate (report_nodes r) = map snd (nodes state)
                    \<and> (\<forall>n\<in>set (report_nodes r).
                          (\<forall>d. duration n = Some d \<longrightarrow>
                             (\<exists>s f. startedAt n = Some s \<and> finishedAt n = Some f
                                    \<and> d = f - s))
                          \<and> (\<forall>s f. startedAt n = Some s \<and> finishedAt n = Some f
                                    \<and> s \<noteq> 0 \<and> f \<noteq> 0
                                \<longrightarrow> duration n = Some (f - s))))"
      using Some
      by (auto simp: executionReport_message_end_def node_info.truncate_def js_minus_def
          bind_eq_Some_conv split: option.splits if_splits)
    then show ?thesis
      using Some handler by simp
  qed
  have finished: "case executionReport_workflow_finished ?state1 of
              None \<Rightarrow> \<not> calm_state ?state1 \<and> case_workflow_finished finished state = None
            | Some report1 \<Rightarrow>
                \<exists>parts1. case_workflow_finished finished state = Some (?state1, parts1)
                         \<and> parts1 \<noteq> [] \<and> report_of (last parts1) = Some report1"
    if event: "\<not> coercion_throws (get_prop ''finished_at'' (field ''data'' finished))"
  proof (cases "executionReport_workflow_finished ?state1")
    case None
    then have "\<not> calm_state ?state1"
      using report_defined(1) [of ?state1] by auto
    moreover have "case_workflow_finished finished state = None"
      using None by (rule workflow_finished_throws)
    ultimately show ?thesis
      using None by simp
  next
    case (Some report1)
    have "\<exists>parts1. case_workflow_finished finished state = Some (?state1, parts1)
                         \<and> parts1 \<noteq> [] \<and> report_of (last parts1) = Some report1"
      using event Some by (rule workflow_finished_report)
    then show ?thesis
      using Some by simp
  qed
  have "case_workflow_finished finished state = None"
    if "coercion_throws (get_prop ''finished_at'' (field ''data'' finished))"
    using coercion_throws_present [OF that] new_Date_throws [OF that]
    by (simp add: case_workflow_finished_def data_is_object_def Let_def)
  then show ?thesis
    using same ended finished unfolding Let_def by simp
qed

theorem reports_agree_witness:
  "\<exists>state1 parts1 state2 parts2.
     case_workflow_finished [(''event'', JStr ''workflow_finished'')]
       (initial_state\<lparr>workflowId := JStr ''w'', workflowStartedAt := JNum 4,
                      workflowFinishedAt := JNum 9,
                      nodes := [(JStr ''n1'', \<lparr>nodeId = JStr ''n1'', nodeType = JStr ''llm'',
                                             startedAt = Some 5, finishedAt = Some 7\<rparr>),
                                (JStr ''n2'', \<lparr>nodeId = JStr ''n2'', nodeType = JStr ''end'',
                                             startedAt = Some 8, finishedAt = None\<rparr>)]\<rparr>)
       = Some (state1, parts1)
     \<and> parts1 \<noteq> []
     \<and> report_of (last parts1) =
         Some (Some \<lparr>report_workflowId = JStr ''w'', report_workflowRunId = JUndefined,
                      report_startedAt = JNum 4, report_finishedAt = JNum 9,
                      report_duration = Some (Number 5),
                      report_nodes =
                        [\<lparr>nodeId = JStr ''n1'', nodeType = JStr ''llm'', startedAt = Some 5,
                          finishedAt = Some 7, duration = Some 2\<rparr>,
                         \<lparr>nodeId = JStr ''n2'', nodeType = JStr ''end'', startedAt = Some 8,
                          finishedAt = None, duration = None\<rparr>]\<rparr>)
     \<and> case_message_end [(''event'', JStr ''message_end'')]
       (initial_state\<lparr>workflowId := JStr ''w'', workflowStartedAt := JNum 4,
                      workflowFinishedAt := JNum 9,
                      nodes := [(JStr ''n1'', \<lparr>nodeId = JStr ''n1'', nodeType = JStr ''llm'',
                                             startedAt = Some 5, finishedAt = Some 7\<rparr>),
                                (JStr ''n2'', \<lparr>nodeId = JStr ''n2'', nodeType = JStr ''end'',
                                             startedAt = Some 8, finishedAt = None\<rparr>)]\<rparr>)
       = Some (state2, parts2)
     \<and> parts2 \<noteq> []
     \<and> report_of (last parts2) =
         Some (Some \<lparr>report_workflowId = JStr ''w'', report_workflowRunId = JUndefined,
                      report_startedAt = JNum 4, report_finishedAt = JNum 9,
                      report_duration = Some (Number 5),
                      report_nodes =
                        [\<lparr>nodeId = JStr ''n1'', nodeType = JStr ''llm'', startedAt = Some 5,
                          finishedAt = Some 7, duration = Some 2\<rparr>,
                         \<lparr>nodeId = JStr ''n2'', nodeType = JStr ''end'', startedAt = Some 8,
                          finishedAt = None, duration = None\<rparr>]\<rparr>)"
proof -
  let ?state = "initial_state\<lparr>workflowId := JStr ''w'', workflowStartedAt := JNum 4,
                      workflowFinishedAt := JNum 9,
                      nodes := [(JStr ''n1'', \<lparr>nodeId = JStr ''n1'', nodeType = JStr ''llm'',
                                             startedAt = Some 5, finishedAt = Some 7\<rparr>),
                                (JStr ''n2'', \<lparr>nodeId = JStr ''n2'', nodeType = JStr ''end'',
                                             startedAt = Some 8, finishedAt = None\<rparr>)]\<rparr>"
  let ?report = "\<lparr>report_workflowId = JStr ''w'', report_workflowRunId = JUndefined,
                      report_startedAt = JNum 4, report_finishedAt = JNum 9,
                      report_duration = Some (Number 5),
                      report_nodes =
                        [\<lparr>nodeId = JStr ''n1'', nodeType = JStr ''llm'', startedAt = Some 5,
                          finishedAt = Some 7, duration = Some 2\<rparr>,
                         \<lparr>nodeId = JStr ''n2'', nodeType = JStr ''end'', startedAt = Some 8,
                          finishedAt = None, duration = None\<rparr>]\<rparr>"
  have unchanged: "\<not> data_is_object [(''event'', JStr ''workflow_finished'')]"
    by (simp add: data_is_object_def field_def)
  have event: "\<not> coercion_throws (get_prop ''finished_at''
                   (field ''data'' [(''event'', JStr ''workflow_finished'')]))"
    by (simp add: field_def coercion_throws_def)
  have report: "executionReport_message_end ?state = Some (Some ?report)"
    by (simp add: executionReport_message_end_def initial_state_def js_minus_def)
  note agree = reports_agree [of ?state "[(''event'', JStr ''message_end'')]"
      "[(''event'', JStr ''workflow_finished'')]"]
  have first: "executionReport_workflow_finished ?state = Some (Some ?report)"
    using agree report by simp
  have "\<exists>parts1. case_workflow_finished [(''event'', JStr ''workflow_finished'')] ?state
                    = Some (?state, parts1)
                  \<and> parts1 \<noteq> [] \<and> report_of (last parts1) = Some (Some ?report)"
    using agree event unchanged first by (simp add: Let_def)
  moreover have "\<exists>state2 parts2.
               case_message_end [(''event'', JStr ''message_end'')] ?state = Some (state2, parts2)
               \<and> parts2 \<noteq> [] \<and> report_of (last parts2) = Some (Some ?report)"
    using agree report by simp
  ultimately show ?thesis
    by blast
qed

subsection \<open>Node events and unknown events\<close>

text \<open>
  Claim C6, as amended. A validated \<^verbatim>\<open>node_finished\<close> event whose node id is
  not in the node ledger is translated without any failure and leaves the ledger as
  it is. It always gives a raw part, \<^verbatim>\<open>{ difyEvent, duration: undefined, ...event }\<close>,
  whose duration is the event's own \<^verbatim>\<open>duration\<close> property, undefined when the
  event has none; before it, a response-metadata part for the node only when the
  event carries a \<^verbatim>\<open>created_at\<close> that is not 0.
\<close>

theorem node_finished_unseen_node:
  assumes "parse_event raw = Success data"
    and "field ''event'' data = JStr ''node_finished''"
    and "get_prop ''node_id'' (field ''data'' data) = JStr nid"
    and "Map_get (JStr nid) (nodes state) = None"
  shows "\<exists>state' created_at.
           opt_number (field ''created_at'' data) = Some created_at
           \<and> transform newId state (Success data) =
               Some (state',
                     (if num_truthy created_at
                      then [ResponseMetadata (JStr (''node-'' @ nid))
                              (map_option date_of_seconds created_at)]
                      else [])
                     @ [Raw (JObj (obj_spread
                                     [(''difyEvent'', JStr ''node_finished''),
                                      (''duration'', JUndefined)] data))])
           \<and> nodes state' = nodes state
           \<and> field ''duration''
                 (obj_spread [(''difyEvent'', JStr ''node_finished''),
                              (''duration'', JUndefined)] data)
               = field ''duration'' data"
proof -
  have "base_typed data"
    using assms(1) by (rule parse_event_typed)
  then obtain c m t a where ids: "opt_string (field ''conversation_id'' data) = Some c"
    "opt_string (field ''message_id'' data) = Some m"
    "opt_string (field ''task_id'' data) = Some t"
    and a: "opt_number (field ''created_at'' data) = Some a"
    by (rule base_typedE)
  have obj: "data_is_object data" "has_key ''node_id'' (field ''data'' data)"
    using get_prop_object [OF assms(3)] by (simp_all add: data_is_object_def)
  have handler: "case_node_finished a data (storeIds c m t state) =
      Some (storeIds c m t state,
            (if num_truthy a
             then [ResponseMetadata (JStr (''node-'' @ nid)) (map_option date_of_seconds a)]
             else [])
            @ [Raw (JObj (obj_spread
                            [(''difyEvent'', JStr ''node_finished''),
                             (''duration'', JUndefined)] data))])"
    using obj assms(3,4) by (simp add: case_node_finished_def split: option.splits)
  have "field ''duration''
          (obj_spread [(''difyEvent'', JStr ''node_finished''), (''duration'', JUndefined)] data)
        = field ''duration'' data"
    by (simp add: field_obj_spread) (auto simp: field_def has_field_def)
  then show ?thesis
    using assms(2) ids a handler by (simp add: transform_def)
qed

text \<open>
  A \<^verbatim>\<open>node_finished\<close> event for a node never started, without a top-level
  \<^verbatim>\<open>created_at\<close>: the only part is the raw part.
\<close>

theorem node_finished_unseen_node_counterexample:
  "transform [] initial_state
     (parse_event (JObj [(''event'', JStr ''node_finished''),
                         (''data'', JObj [(''node_id'', JStr ''n1'')])])) =
   Some (initial_state,
         [Raw (JObj [(''difyEvent'', JStr ''node_finished''), (''duration'', JUndefined),
                     (''event'', JStr ''node_finished''),
                     (''data'', JObj [(''node_id'', JStr ''n1'')])])])"
  by code_simp

theorem node_finished_unseen_node_witness:
  "\<exists>state' created_at.
     opt_number (field ''created_at''
                   [(''event'', JStr ''node_finished''), (''created_at'', JNum 7),
                    (''data'', JObj [(''node_id'', JStr ''n1'')])]) = Some created_at
     \<and> transform [] initial_state
           (Success [(''event'', JStr ''node_finished''), (''created_at'', JNum 7),
                     (''data'', JObj [(''node_id'', JStr ''n1'')])]) =
         Some (state',
               (if num_truthy created_at
                then [ResponseMetadata (JStr (''node-'' @ ''n1''))
                        (map_option date_of_seconds created_at)]
                else [])
               @ [Raw (JObj (obj_spread
                               [(''difyEvent'', JStr ''node_finished''),
                                (''duration'', JUndefined)]
                               [(''event'', JStr ''node_finished''), (''created_at'', JNum 7),
                                (''data'', JObj [(''node_id'', JStr ''n1'')])]))])
     \<and> nodes state' = nodes initial_state
     \<and> field ''duration''
           (obj_spread [(''difyEvent'', JStr ''node_finished''), (''duration'', JUndefined)]
              [(''event'', JStr ''node_finished''), (''created_at'', JNum 7),
               (''data'', JObj [(''node_id'', JStr ''n1'')])])
         = field ''duration''
             [(''event'', JStr ''node_finished''), (''created_at'', JNum 7),
              (''data'', JObj [(''node_id'', JStr ''n1'')])]"
proof -
  let ?data = "[(''event'', JStr ''node_finished''), (''created_at'', JNum 7),
                (''data'', JObj [(''node_id'', JStr ''n1'')])]"
  have valid: "parse_event (JObj [(''data'', JObj [(''node_id'', JStr ''n1'')]),
                                  (''event'', JStr ''node_finished''),
                                  (''created_at'', JNum 7)]) = Success ?data"
    by code_simp
  have kind: "field ''event'' ?data = JStr ''node_finished''"
    by (simp add: field_def)
  have node: "get_prop ''node_id'' (field ''data'' ?data) = JStr ''n1''"
    by (simp add: field_def)
  have unseen: "Map_get (JStr ''n1'') (nodes initial_state) = None"
    by (simp add: Map_get_def initial_state_def)
  show ?thesis
    by (rule node_finished_unseen_node [OF valid kind node unseen])
qed

text \<open>
  Claim C7, as amended. An element that the decoder does not refuse for a forbidden
  prototype property, whose \<^verbatim>\<open>event\<close> tag is a string outside the known kinds,
  and whose \<^verbatim>\<open>conversation_id\<close>, \<^verbatim>\<open>message_id\<close> and \<^verbatim>\<open>task_id\<close> are
  strings and whose \<^verbatim>\<open>created_at\<close> is a number where present, validates through
  the fallback base schema with every property as it was. The
  translator gives for it exactly one part, the raw part
  \<^verbatim>\<open>{ difyEvent: tag, ...element }\<close>, and no error part; its \<^verbatim>\<open>difyEvent\<close> is the
  tag, unless the element has a \<^verbatim>\<open>difyEvent\<close> property of its own, which the
  spread lets win.
\<close>

theorem unknown_kind_passes_through:
  assumes "field ''event'' kvs = JStr tag" and "tag \<notin> set known_kinds" and "base_typed kvs"
    and "\<not> forbidden (JObj kvs)"
  shows "\<exists>data state'.
           parse_event (JObj kvs) = Success data
           \<and> (\<forall>k. field k data = field k kvs \<and> has_field k data = has_field k kvs)
           \<and> transform newId state (parse_event (JObj kvs)) =
               Some (state', [Raw (JObj (obj_spread [(''difyEvent'', JStr tag)] data))])
           \<and> field ''difyEvent'' (obj_spread [(''difyEvent'', JStr tag)] data) =
               (if has_field ''difyEvent'' kvs then field ''difyEvent'' kvs else JStr tag)"
proof -
  obtain data where ev: "parse_event (JObj kvs) = Success data"
    and base: "safeParse difyStreamEventBase (JObj kvs) = Some (JObj data)"
    using unknown_kind_validates [OF assms] by blast
  have "\<not> has_field ''__proto__'' kvs"
    using assms(4) by simp
  then have same: "field k data = field k kvs \<and> has_field k data = has_field k kvs" for k
    using base_preserves [OF base] by simp
  have typed: "base_typed data"
    using ev by (rule parse_event_typed)
  have "field ''event'' data = JStr tag"
    using same assms(1) by simp
  then obtain state' where "transform newId state (Success data) =
           Some (state', [Raw (JObj (obj_spread [(''difyEvent'', JStr tag)] data))])"
    using default_case [OF typed _ assms(2)] by blast
  moreover have "field ''difyEvent'' (obj_spread [(''difyEvent'', JStr tag)] data) =
               (if has_field ''difyEvent'' kvs then field ''difyEvent'' kvs else JStr tag)"
    using same by (simp add: field_obj_spread) (simp add: field_def)
  ultimately show ?thesis
    using ev same by auto
qed

text \<open>
  An element with the unknown tag \<^verbatim>\<open>foo_bar\<close> and a \<^verbatim>\<open>task_id\<close> that is a
  number fails the validation and becomes an error part.
\<close>

theorem unknown_kind_counterexample:
  "transform [] initial_state
     (parse_event (JObj [(''event'', JStr ''foo_bar''), (''task_id'', JNum 5)])) =
   Some (initial_state,
         [ErrorPart (TypeValidationError
                       (JObj [(''event'', JStr ''foo_bar''), (''task_id'', JNum 5)]))])"
  by code_simp

theorem unknown_kind_passes_through_witness:
  "\<exists>data state'.
     parse_event (JObj [(''payload'', JNum 1), (''event'', JStr ''foo_bar'')]) = Success data
     \<and> (\<forall>k. field k data = field k [(''payload'', JNum 1), (''event'', JStr ''foo_bar'')]
             \<and> has_field k data
                 = has_field k [(''payload'', JNum 1), (''event'', JStr ''foo_bar'')])
     \<and> transform [] initial_state
           (parse_event (JObj [(''payload'', JNum 1), (''event'', JStr ''foo_bar'')])) =
         Some (state', [Raw (JObj (obj_spread [(''difyEvent'', JStr ''foo_bar'')] data))])
     \<and> field ''difyEvent'' (obj_spread [(''difyEvent'', JStr ''foo_bar'')] data) =
         (if has_field ''difyEvent'' [(''payload'', JNum 1), (''event'', JStr ''foo_bar'')]
          then field ''difyEvent'' [(''payload'', JNum 1), (''event'', JStr ''foo_bar'')]
          else JStr ''foo_bar'')"
proof -
  let ?kvs = "[(''payload'', JNum 1), (''event'', JStr ''foo_bar'')]"
  have tag: "field ''event'' ?kvs = JStr ''foo_bar''"
    by (simp add: field_def)
  have unknown: "''foo_bar'' \<notin> set known_kinds"
    by (simp add: known_kinds_def)
  have typed: "base_typed ?kvs"
    by (simp add: base_typed_def field_def)
  have clean: "\<not> forbidden (JObj ?kvs)"
    by (simp add: has_field_def)
  show ?thesis
    by (rule unknown_kind_passes_through [OF tag unknown typed clean])
qed

subsection \<open>An empty answer\<close>

text \<open>
  Claim C10. A validated \<^verbatim>\<open>message\<close> or \<^verbatim>\<open>agent_message\<close> event whose answer
  is the empty string, arriving outside a reasoning block while the answer channel is
  closed, gives a text-start part followed by a text-delta part with the empty
  string, and opens the channel. After them comes only the response-metadata part of
  an \<^verbatim>\<open>agent_message\<close> event that has a string id.
\<close>

theorem empty_answer_opens_channel:
  assumes "parse_event raw = Success data"
    and "field ''event'' data = JStr ''message'' \<or> field ''event'' data = JStr ''agent_message''"
    and "field ''answer'' data = JStr []"
    and "\<not> isInThinking state" and "\<not> isActiveText state"
  shows "\<exists>state' created_at.
           opt_number (field ''created_at'' data) = Some created_at
           \<and> transform newId state (Success data) =
               Some (state',
                     [TextStart ''answer'', TextDelta ''answer'' []]
                     @ (if field ''event'' data = JStr ''agent_message''
                           \<and> is_string (field ''id'' data)
                        then [ResponseMetadata (field ''id'' data)
                                (if num_truthy created_at
                                 then map_option date_of_seconds created_at else None)]
                        else []))
           \<and> isActiveText state' \<and> \<not> isInThinking state'"
proof -
  have "base_typed data"
    using assms(1) by (rule parse_event_typed)
  then obtain c m t a where ids: "opt_string (field ''conversation_id'' data) = Some c"
    "opt_string (field ''message_id'' data) = Some m"
    "opt_string (field ''task_id'' data) = Some t"
    and a: "opt_number (field ''created_at'' data) = Some a"
    by (rule base_typedE)
  have answer: "has_field ''answer'' data"
    using assms(3) by (simp add: field_has_field)
  have id: "is_string (field ''id'' data) \<Longrightarrow> has_field ''id'' data"
    by (rule field_has_field) auto
  have split: "parseContentWithThinking newId [] (storeIds c m t state) =
      ((storeIds c m t state)\<lparr>isActiveText := True\<rparr>,
       [TextStart ''answer'', TextDelta ''answer'' []])"
    using assms(4,5) by (simp add: parseContentWithThinking_def str_includes_def)
  show ?thesis
    using assms(2,3,4) ids a answer id split
    by (auto simp: transform_def case_message_def)
qed

theorem empty_answer_opens_channel_witness:
  "\<exists>state' created_at.
     opt_number (field ''created_at''
                   [(''event'', JStr ''agent_message''), (''created_at'', JNum 1749536594),
                    (''answer'', JStr []), (''id'', JStr ''m1'')]) = Some created_at
     \<and> transform [] initial_state
           (Success [(''event'', JStr ''agent_message''), (''created_at'', JNum 1749536594),
                     (''answer'', JStr []), (''id'', JStr ''m1'')]) =
         Some (state',
               [TextStart ''answer'', TextDelta ''answer'' []]
               @ (if field ''event''
                       [(''event'', JStr ''agent_message''), (''created_at'', JNum 1749536594),
                        (''answer'', JStr []), (''id'', JStr ''m1'')] = JStr ''agent_message''
                     \<and> is_string (field ''id''
                          [(''event'', JStr ''agent_message''),
                           (''created_at'', JNum 1749536594),
                           (''answer'', JStr []), (''id'', JStr ''m1'')])
                  then [ResponseMetadata
                          (field ''id''
                             [(''event'', JStr ''agent_message''),
                              (''created_at'', JNum 1749536594),
                              (''answer'', JStr []), (''id'', JStr ''m1'')])
                          (if num_truthy created_at
                           then map_option date_of_seconds created_at else None)]
                  else []))
     \<and> isActiveText state' \<and> \<not> isInThinking state'"
proof -
  let ?data = "[(''event'', JStr ''agent_message''), (''created_at'', JNum 1749536594),
                (''answer'', JStr []), (''id'', JStr ''m1'')]"
  have valid: "parse_event (JObj [(''event'', JStr ''agent_message''),
                                  (''id'', JStr ''m1''), (''answer'', JStr []),
                                  (''created_at'', JNum 1749536594)]) = Success ?data"
    by code_simp
  have kind: "field ''event'' ?data = JStr ''message''
                \<or> field ''event'' ?data = JStr ''agent_message''"
    by (simp add: field_def)
  have answer: "field ''answer'' ?data = JStr []"
    by (simp add: field_def)
  have idle: "\<not> isInThinking initial_state" "\<not> isActiveText initial_state"
    by (simp_all add: initial_state_def)
  show ?thesis
    by (rule empty_answer_opens_channel [OF valid kind answer idle])
qed

end
